theory Spec2Isabelle
  imports Main "HOL-Library.Multiset" "HOL-Library.Char_ord" "HOL-Library.List_Lexorder"
begin

section \<open>Database bootstrap: \<open>backend/database/initializer.py\<close>\<close>

text \<open>
  The exceptions the bootstrap code distinguishes. \<open>OtherError\<close> stands for any exception
  that is neither a \<open>SQLAlchemyError\<close>, a \<open>RuntimeError\<close> nor a \<open>FileNotFoundError\<close>
  (for instance the migration engine's own \<open>CommandError\<close>).
\<close>

datatype exn = SQLAlchemyError | RuntimeError | FileNotFoundError | OtherError

text \<open>
  The SQL Server instance as the manager observes it: whether a statement on the
  \<open>master\<close> connection succeeds, the names in \<open>sys.databases\<close>, whether a statement on the
  target connection succeeds, and the base tables of schema \<open>dbo\<close> in the target database.
  A connection or a statement that does not succeed raises \<open>SQLAlchemyError\<close>.
\<close>

record server =
  master_ok :: bool
  databases :: "string list"
  target_ok :: bool
  tables :: "string list"

datatype engine = Live | Disposed

record DBManager =
  db_name :: string
  master_engine :: "engine option"
  target_engine :: "engine option"

record world =
  mgr :: DBManager
  srv :: server

text \<open>\<open>_get_engine\<close>: the engine is created on first use and cached.\<close>

definition get_engine :: "bool \<Rightarrow> DBManager \<Rightarrow> DBManager" where
  "get_engine is_master m =
     (if is_master then
        (if master_engine m = None then m\<lparr>master_engine := Some Live\<rparr> else m)
      else
        (if target_engine m = None then m\<lparr>target_engine := Some Live\<rparr> else m))"

text \<open>\<open>verify_conn\<close>: \<open>SELECT 1\<close> on the master connection; a \<open>SQLAlchemyError\<close> gives \<open>False\<close>.\<close>

definition verify_conn :: "world \<Rightarrow> bool \<times> world" where
  "verify_conn w =
     (let w' = w\<lparr>mgr := get_engine True (mgr w)\<rparr>
      in if master_ok (srv w') then (True, w') else (False, w'))"

text \<open>
  \<open>db_exists\<close>: looks the database name up in \<open>sys.databases\<close>. The result object of
  \<open>conn.execute\<close> is always truthy, so the \<open>if not result\<close> branch is never taken.
\<close>

definition db_exists :: "world \<Rightarrow> bool \<times> world" where
  "db_exists w =
     (let w' = w\<lparr>mgr := get_engine True (mgr w)\<rparr>
      in if master_ok (srv w')
         then (db_name (mgr w') \<in> set (databases (srv w')), w')
         else (False, w'))"

definition required_tables :: "string list" where
  "required_tables =
     [''balance_sheet_items'', ''income_statement_items'',
      ''cash_flow_statement_items'', ''financial_reports'']"

text \<open>\<open>tables_exist\<close>: every required table is among the base tables of the target database.\<close>

definition tables_exist :: "world \<Rightarrow> bool \<times> world" where
  "tables_exist w =
     (let (ex, w1) = db_exists w in
      if \<not> ex then (False, w1)
      else
        (let w2 = w1\<lparr>mgr := get_engine False (mgr w1)\<rparr> in
         if target_ok (srv w2) then
           (let existing_tables = set (tables (srv w2));
                missing_tables = set required_tables - existing_tables
            in if missing_tables \<noteq> {} then (False, w2) else (True, w2))
         else (False, w2)))"

text \<open>
  The migration engine (\<open>alembic.command.upgrade\<close>) is outside the repository. It is a
  parameter: from the server state it either returns or raises, and in both cases leaves
  a server state behind.
\<close>

type_synonym migration = "server \<Rightarrow> exn option \<times> server"

text \<open>
  \<open>sync_tables\<close>: runs the migrations; \<open>SQLAlchemyError\<close>, \<open>RuntimeError\<close> and
  \<open>FileNotFoundError\<close> are caught and give \<open>False\<close>, any other exception propagates.
\<close>

definition sync_tables :: "migration \<Rightarrow> world \<Rightarrow> (exn + bool) \<times> world" where
  "sync_tables upgrade w =
     (let (ex, w1) = db_exists w in
      if \<not> ex then (Inr False, w1)
      else
        (case upgrade (srv w1) of
           (None, s') \<Rightarrow> (Inr True, w1\<lparr>srv := s'\<rparr>)
         | (Some e, s') \<Rightarrow>
             (if e = SQLAlchemyError \<or> e = RuntimeError \<or> e = FileNotFoundError
              then (Inr False, w1\<lparr>srv := s'\<rparr>)
              else (Inl e, w1\<lparr>srv := s'\<rparr>))))"

text \<open>\<open>cleanup\<close>: disposes the engines that were created.\<close>

definition cleanup :: "world \<Rightarrow> world" where
  "cleanup w =
     (let m = mgr w;
          m1 = (if target_engine m \<noteq> None then m\<lparr>target_engine := Some Disposed\<rparr> else m);
          m2 = (if master_engine m1 \<noteq> None then m1\<lparr>master_engine := Some Disposed\<rparr> else m1)
      in w\<lparr>mgr := m2\<rparr>)"

text \<open>The last check of \<open>initialize\<close>: its result is that of \<open>tables_exist\<close>.\<close>

definition initialize_final :: "world \<Rightarrow> (exn + bool) \<times> world" where
  "initialize_final w = (let (te, w') = tables_exist w in (Inr te, w'))"

text \<open>The body of the \<open>try\<close> block of \<open>initialize\<close>; \<open>Inl\<close> is an exception raised in it.\<close>

definition initialize_try :: "migration \<Rightarrow> world \<Rightarrow> (exn + bool) \<times> world" where
  "initialize_try upgrade w0 =
     (let (ok, w1) = verify_conn w0 in
      if \<not> ok then (Inl RuntimeError, w1)
      else
        (let (ex, w2) = db_exists w1 in
         if \<not> ex then (Inr False, w2)
         else
           (let (te, w3) = tables_exist w2 in
            if \<not> te then
              (case sync_tables upgrade w3 of
                 (Inl e, w4) \<Rightarrow> (Inl e, w4)
               | (Inr synced, w4) \<Rightarrow>
                   if \<not> synced then (Inr False, w4) else initialize_final w4)
            else
              (case sync_tables upgrade w3 of
                 (Inl e, w4) \<Rightarrow> (Inl e, w4)
               | (Inr synced, w4) \<Rightarrow> initialize_final w4))))"

text \<open>
  \<open>initialize\<close>: the \<open>try\<close> block, the handler \<open>except (SQLAlchemyError, RuntimeError)\<close>
  that turns these two into \<open>False\<close>, and \<open>finally: self.cleanup()\<close>.
\<close>

definition initialize :: "migration \<Rightarrow> world \<Rightarrow> (exn + bool) \<times> world" where
  "initialize upgrade w0 =
     (let (r, w) = initialize_try upgrade w0;
          r' = (case r of
                  Inl e \<Rightarrow> (if e = SQLAlchemyError \<or> e = RuntimeError then Inr False else Inl e)
                | Inr b \<Rightarrow> Inr b)
      in (r', cleanup w))"


subsection \<open>Concrete servers and migrations\<close>

definition manager_live :: DBManager where
  "manager_live = \<lparr>db_name = ''huper'', master_engine = Some Live, target_engine = Some Live\<rparr>"

text \<open>A server that cannot be reached, seen by a manager that has not connected yet.\<close>

definition world_down :: world where
  "world_down =
     \<lparr>mgr = \<lparr>db_name = ''huper'', master_engine = None, target_engine = None\<rparr>,
      srv = \<lparr>master_ok = False, databases = [''master'', ''huper''], target_ok = False,
             tables = []\<rparr>\<rparr>"

text \<open>A reachable server whose database has all the required tables.\<close>

definition world_ready :: world where
  "world_ready =
     \<lparr>mgr = manager_live,
      srv = \<lparr>master_ok = True, databases = [''master'', ''huper''], target_ok = True,
             tables = required_tables\<rparr>\<rparr>"

text \<open>A reachable server whose database has no table yet.\<close>

definition world_empty :: world where
  "world_empty =
     \<lparr>mgr = manager_live,
      srv = \<lparr>master_ok = True, databases = [''master'', ''huper''], target_ok = True,
             tables = []\<rparr>\<rparr>"

text \<open>A migration that raises at once, one that raises after it has created the tables
  (a later revision fails), and one that succeeds.\<close>

definition upgrade_fails :: migration where
  "upgrade_fails s = (Some SQLAlchemyError, s)"

definition upgrade_partial :: migration where
  "upgrade_partial s = (Some SQLAlchemyError, s\<lparr>tables := required_tables\<rparr>)"

definition upgrade_ok :: migration where
  "upgrade_ok s = (None, s\<lparr>tables := required_tables\<rparr>)"

section \<open>Report repository: \<open>backend/database/repositories/report.py\<close>\<close>

subsection \<open>Values, payloads and strings\<close>

text \<open>
  Python values that occur in a payload (\<open>Dict[str, Any]\<close>) and in a column: \<open>None\<close> (SQL
  \<open>NULL\<close>), integers and strings. A payload is the list of the dictionary's items in
  insertion order; the keys of a dictionary are distinct.
\<close>

datatype val = VNone | VInt int | VStr string

type_synonym payload = "(string \<times> val) list"

datatype error =
  KeyError | TypeError | AttributeError | MultipleResultsFound | IntegrityError | DBAPIError

text \<open>
  \<open>str.lower()\<close>. A character is a code point below 256; there, \<open>lower\<close> maps the letters
  \<open>A\<close> to \<open>Z\<close> (65 to 90) and the uppercase letters from 192 to 222, the multiplication
  sign 215 excepted, to the code point 32 above, and leaves every other character as it is.
\<close>

definition lower_char :: "char \<Rightarrow> char" where
  "lower_char c =
     (let n = (of_char c :: nat) in
      if (65 \<le> n \<and> n \<le> 90) \<or> (192 \<le> n \<and> n \<le> 222 \<and> n \<noteq> 215)
      then char_of (n + 32) else c)"

definition lower :: "string \<Rightarrow> string" where
  "lower s = map lower_char s"

text \<open>
  The collation of the string columns decides when two strings are equal in a \<open>WHERE\<close>
  clause and how they are ordered in \<open>ORDER BY\<close>. It is given by its sort key: two strings
  are equal when their sort keys are equal, and ordered as their sort keys are. The
  server's default collation is case-insensitive; a binary collation compares the
  strings as they are.
\<close>

type_synonym collation = "string \<Rightarrow> string"

definition case_insensitive :: collation where
  "case_insensitive s = lower s"

definition binary_collation :: collation where
  "binary_collation s = s"

text \<open>
  \<open>column == value\<close> in a \<open>WHERE\<close> clause: strings are compared under the collation,
  integers by value, and \<open>column == None\<close> is rendered as \<open>column IS NULL\<close>.
\<close>

fun sql_eq :: "collation \<Rightarrow> val \<Rightarrow> val \<Rightarrow> bool" where
  "sql_eq ck (VStr s) (VStr t) = (ck s = ck t)"
| "sql_eq ck u v = (u = v)"

subsection \<open>The entity\<close>

text \<open>
  Modelled from the spec: the entity \<open>FinancialReport\<close> of \<open>backend/database/models\<close>, which
  is not among the sources. It has the surrogate \<open>id\<close>, assigned by the store and immutable
  once created, the four columns of the business key, and content that is opaque here.
  The names of the other attributes of the class are a parameter \<open>cols\<close> of every
  operation that needs them, and their values are kept in \<open>body\<close> (an attribute that is
  not listed there is \<open>None\<close>). The attribute \<open>id\<close> is the field \<open>id_col\<close>.
\<close>

record FinancialReport =
  id_col :: val
  symbol :: val
  report_type :: val
  report_year :: val
  report_quarter :: val
  body :: "(string \<times> val) list"

definition key_columns :: "string list" where
  "key_columns = [''id'', ''symbol'', ''report_type'', ''report_year'', ''report_quarter'']"

definition hasattr :: "string list \<Rightarrow> string \<Rightarrow> bool" where
  "hasattr cols k = (k \<in> set key_columns \<or> k \<in> set cols)"

fun assoc_set :: "string \<Rightarrow> val \<Rightarrow> (string \<times> val) list \<Rightarrow> (string \<times> val) list" where
  "assoc_set k v [] = [(k, v)]"
| "assoc_set k v ((k', v') # kvs) =
     (if k' = k then (k, v) # kvs else (k', v') # assoc_set k v kvs)"

text \<open>
  Modelled from the spec: the symbol of the entity is case-normalized to lowercase on
  every write path, so the entity keeps the lowercase form of a string that is assigned
  to \<open>symbol\<close>, in the constructor and in \<open>setattr\<close> alike.
\<close>

fun normalize_symbol :: "val \<Rightarrow> val" where
  "normalize_symbol (VStr s) = VStr (lower s)"
| "normalize_symbol v = v"

definition setattr :: "FinancialReport \<Rightarrow> string \<Rightarrow> val \<Rightarrow> FinancialReport" where
  "setattr r k v =
     (if k = ''id'' then r\<lparr>id_col := v\<rparr>
      else if k = ''symbol'' then r\<lparr>symbol := normalize_symbol v\<rparr>
      else if k = ''report_type'' then r\<lparr>report_type := v\<rparr>
      else if k = ''report_year'' then r\<lparr>report_year := v\<rparr>
      else if k = ''report_quarter'' then r\<lparr>report_quarter := v\<rparr>
      else r\<lparr>body := assoc_set k v (body r)\<rparr>)"

definition getattr :: "FinancialReport \<Rightarrow> string \<Rightarrow> val" where
  "getattr r k =
     (if k = ''id'' then id_col r
      else if k = ''symbol'' then symbol r
      else if k = ''report_type'' then report_type r
      else if k = ''report_year'' then report_year r
      else if k = ''report_quarter'' then report_quarter r
      else (case map_of (body r) k of None \<Rightarrow> VNone | Some v \<Rightarrow> v))"

definition blank_report :: FinancialReport where
  "blank_report =
     \<lparr>id_col = VNone, symbol = VNone, report_type = VNone, report_year = VNone,
      report_quarter = VNone, body = []\<rparr>"

text \<open>
  Modelled from the spec: the constructor \<open>FinancialReport(**data)\<close>. It assigns each
  keyword to the attribute of that name and raises \<open>TypeError\<close> for a keyword that is not
  an attribute of the class.
\<close>

fun init_loop :: "string list \<Rightarrow> payload \<Rightarrow> FinancialReport \<Rightarrow> error + FinancialReport" where
  "init_loop cols [] r = Inr r"
| "init_loop cols ((k, v) # kvs) r =
     (if hasattr cols k then init_loop cols kvs (setattr r k v) else Inl TypeError)"

definition FinancialReport_init :: "string list \<Rightarrow> payload \<Rightarrow> error + FinancialReport" where
  "FinancialReport_init cols data = init_loop cols data blank_report"

subsection \<open>The session and the table\<close>

text \<open>
  The committed content of table \<open>financial_reports\<close>: its rows, in insertion order, the
  next value of the identity column, and the collation of its string columns.
\<close>

record store =
  rows :: "FinancialReport list"
  next_id :: int
  collation :: collation

text \<open>
  \<open>session.add\<close> followed by the flush of \<open>commit\<close>: a row without an id receives the next
  identity value; an explicit integer id is kept. The primary key is unique and an
  integer: the insert is rejected otherwise, and then nothing is stored.
\<close>

definition insert_row :: "FinancialReport \<Rightarrow> store \<Rightarrow> error + (FinancialReport \<times> store)" where
  "insert_row r st =
     (case id_col r of
        VNone \<Rightarrow>
          (let r' = r\<lparr>id_col := VInt (next_id st)\<rparr> in
           if VInt (next_id st) \<in> set (map id_col (rows st)) then Inl IntegrityError
           else Inr (r', st\<lparr>rows := rows st @ [r'], next_id := next_id st + 1\<rparr>))
      | VInt n \<Rightarrow>
          (if VInt n \<in> set (map id_col (rows st)) then Inl IntegrityError
           else Inr (r, st\<lparr>rows := rows st @ [r], next_id := max (next_id st) (n + 1)\<rparr>))
      | VStr s \<Rightarrow> Inl DBAPIError)"

text \<open>
  Modelled from the spec: the id of the entity is assigned by the store and immutable
  once created, an identity column, which the server does not let an \<open>UPDATE\<close> change.
  \<open>update_row\<close> is the flush of \<open>commit\<close> for a loaded row whose attributes were assigned:
  the row that has id \<open>old\<close> is replaced by the object \<open>r\<close>; when the object's id is no
  longer \<open>old\<close>, the flush raises and nothing is stored.
\<close>

definition update_row :: "val \<Rightarrow> FinancialReport \<Rightarrow> store \<Rightarrow> error + store" where
  "update_row old r st =
     (if id_col r \<noteq> old then Inl DBAPIError
      else Inr (st\<lparr>rows := map (\<lambda>x. if id_col x = old then r else x) (rows st)\<rparr>))"

text \<open>\<open>Result.scalar_one_or_none\<close>: raises when the statement returns more than one row.\<close>

fun scalar_one_or_none :: "'a list \<Rightarrow> error + 'a option" where
  "scalar_one_or_none [] = Inr None"
| "scalar_one_or_none [x] = Inr (Some x)"
| "scalar_one_or_none (x # y # zs) = Inl MultipleResultsFound"

subsection \<open>The operations of \<open>ReportRepository\<close>\<close>

definition add :: "string list \<Rightarrow> payload \<Rightarrow> store \<Rightarrow> (error + FinancialReport) \<times> store" where
  "add cols report_data st =
     (case FinancialReport_init cols report_data of
        Inl e \<Rightarrow> (Inl e, st)
      | Inr report \<Rightarrow>
          (case insert_row report st of
             Inl e \<Rightarrow> (Inl e, st)
           | Inr (report', st') \<Rightarrow> (Inr report', st')))"

text \<open>The list comprehension of \<open>add_bulk\<close>: the first constructor that raises ends it.\<close>

fun init_all :: "string list \<Rightarrow> payload list \<Rightarrow> error + FinancialReport list" where
  "init_all cols [] = Inr []"
| "init_all cols (d # ds) =
     (case FinancialReport_init cols d of
        Inl e \<Rightarrow> Inl e
      | Inr r \<Rightarrow> (case init_all cols ds of Inl e \<Rightarrow> Inl e | Inr rs \<Rightarrow> Inr (r # rs)))"

text \<open>\<open>bulk_save_objects(reports, return_defaults=True)\<close>: the inserts of one transaction.\<close>

fun bulk_save_objects ::
  "FinancialReport list \<Rightarrow> store \<Rightarrow> error + (FinancialReport list \<times> store)" where
  "bulk_save_objects [] st = Inr ([], st)"
| "bulk_save_objects (r # rs) st =
     (case insert_row r st of
        Inl e \<Rightarrow> Inl e
      | Inr (r', st') \<Rightarrow>
          (case bulk_save_objects rs st' of
             Inl e \<Rightarrow> Inl e
           | Inr (rs', st'') \<Rightarrow> Inr (r' # rs', st'')))"

definition add_bulk ::
  "string list \<Rightarrow> payload list \<Rightarrow> store \<Rightarrow> (error + FinancialReport list) \<times> store" where
  "add_bulk cols reports_data st =
     (case init_all cols reports_data of
        Inl e \<Rightarrow> (Inl e, st)
      | Inr reports \<Rightarrow>
          (case bulk_save_objects reports st of
             Inl e \<Rightarrow> (Inl e, st)
           | Inr (reports', st') \<Rightarrow> (Inr reports', st')))"

definition get_by_id :: "int \<Rightarrow> store \<Rightarrow> error + FinancialReport option" where
  "get_by_id report_id st =
     scalar_one_or_none (filter (\<lambda>r. id_col r = VInt report_id) (rows st))"

definition get_by_symbol :: "string \<Rightarrow> store \<Rightarrow> FinancialReport list" where
  "get_by_symbol symb st =
     filter (\<lambda>r. sql_eq (collation st) (symbol r) (VStr (lower symb))) (rows st)"

text \<open>
  \<open>find_duplicate\<close>: the three conjuncts of the first \<open>where\<close>, then exactly one of the two
  predicates on the quarter. \<open>VNone\<close> is the argument \<open>None\<close>. The symbol and the type are
  string columns, the year and the quarter integer columns.
\<close>

definition find_duplicate ::
  "string \<Rightarrow> val \<Rightarrow> val \<Rightarrow> val \<Rightarrow> store \<Rightarrow> error + FinancialReport option" where
  "find_duplicate symb rtype ryear rquarter st =
     (let stmt = filter (\<lambda>r. sql_eq (collation st) (symbol r) (VStr (lower symb)) \<and>
                               sql_eq (collation st) (report_type r) rtype \<and>
                               report_year r = ryear) (rows st);
          stmt' = (if rquarter \<noteq> VNone
                   then filter (\<lambda>r. report_quarter r = rquarter) stmt
                   else filter (\<lambda>r. report_quarter r = VNone) stmt)
      in scalar_one_or_none stmt')"

text \<open>The loop of \<open>update\<close>: every key that is an attribute is assigned.\<close>

fun update_loop :: "string list \<Rightarrow> payload \<Rightarrow> FinancialReport \<Rightarrow> FinancialReport" where
  "update_loop cols [] r = r"
| "update_loop cols ((k, v) # kvs) r =
     update_loop cols kvs (if hasattr cols k then setattr r k v else r)"

definition update ::
  "string list \<Rightarrow> int \<Rightarrow> payload \<Rightarrow> store \<Rightarrow> (error + FinancialReport option) \<times> store" where
  "update cols report_id update_data st =
     (case get_by_id report_id st of
        Inl e \<Rightarrow> (Inl e, st)
      | Inr None \<Rightarrow> (Inr None, st)
      | Inr (Some report) \<Rightarrow>
          (let report' = update_loop cols update_data report in
           case update_row (id_col report) report' st of
             Inl e \<Rightarrow> (Inl e, st)
           | Inr st' \<Rightarrow> (Inr (Some report'), st')))"

text \<open>The loop of the update branch of \<open>upsert\<close>: as above, except for the key \<open>id\<close>.\<close>

fun upsert_loop :: "string list \<Rightarrow> payload \<Rightarrow> FinancialReport \<Rightarrow> FinancialReport" where
  "upsert_loop cols [] r = r"
| "upsert_loop cols ((k, v) # kvs) r =
     upsert_loop cols kvs (if hasattr cols k \<and> k \<noteq> ''id'' then setattr r k v else r)"

text \<open>
  \<open>upsert\<close>. \<open>report_data["symbol"]\<close> raises \<open>KeyError\<close> for a missing key, and
  \<open>symbol.lower()\<close> in \<open>find_duplicate\<close> raises \<open>AttributeError\<close> for a value that is not a
  string; \<open>report_data.get("report_quarter")\<close> is \<open>None\<close> for a missing key.
\<close>

definition upsert ::
  "string list \<Rightarrow> payload \<Rightarrow> store \<Rightarrow> (error + (FinancialReport \<times> bool)) \<times> store" where
  "upsert cols report_data st =
     (case map_of report_data ''symbol'' of
        None \<Rightarrow> (Inl KeyError, st)
      | Some symb \<Rightarrow>
     (case map_of report_data ''report_type'' of
        None \<Rightarrow> (Inl KeyError, st)
      | Some rtype \<Rightarrow>
     (case map_of report_data ''report_year'' of
        None \<Rightarrow> (Inl KeyError, st)
      | Some ryear \<Rightarrow>
     (let rquarter = (case map_of report_data ''report_quarter'' of None \<Rightarrow> VNone | Some q \<Rightarrow> q) in
      case symb of
        VNone \<Rightarrow> (Inl AttributeError, st)
      | VInt n \<Rightarrow> (Inl AttributeError, st)
      | VStr s \<Rightarrow>
          (case find_duplicate s rtype ryear rquarter st of
             Inl e \<Rightarrow> (Inl e, st)
           | Inr (Some existing) \<Rightarrow>
               (let existing' = upsert_loop cols report_data existing in
                case update_row (id_col existing) existing' st of
                  Inl e \<Rightarrow> (Inl e, st)
                | Inr st' \<Rightarrow> (Inr (existing', False), st'))
           | Inr None \<Rightarrow>
               (case FinancialReport_init cols report_data of
                  Inl e \<Rightarrow> (Inl e, st)
                | Inr new_report \<Rightarrow>
                    (case insert_row new_report st of
                       Inl e \<Rightarrow> (Inl e, st)
                     | Inr (new_report', st') \<Rightarrow> (Inr (new_report', True), st'))))))))"

record bulk_stats =
  created :: nat
  updated :: nat
  total_count :: nat

text \<open>
  The loop of \<open>upsert_bulk\<close>, with its two counters. An exception of \<open>upsert\<close> leaves the
  loop; the store is then the one the earlier items have committed.
\<close>

fun upsert_bulk_loop ::
  "string list \<Rightarrow> payload list \<Rightarrow> nat \<Rightarrow> nat \<Rightarrow> store \<Rightarrow> (error + (nat \<times> nat)) \<times> store" where
  "upsert_bulk_loop cols [] created_count updated_count st =
     (Inr (created_count, updated_count), st)"
| "upsert_bulk_loop cols (d # ds) created_count updated_count st =
     (case upsert cols d st of
        (Inl e, st') \<Rightarrow> (Inl e, st')
      | (Inr (r, was_created), st') \<Rightarrow>
          (if was_created then upsert_bulk_loop cols ds (created_count + 1) updated_count st'
           else upsert_bulk_loop cols ds created_count (updated_count + 1) st'))"

definition upsert_bulk ::
  "string list \<Rightarrow> payload list \<Rightarrow> store \<Rightarrow> (error + bulk_stats) \<times> store" where
  "upsert_bulk cols reports_data st =
     (case upsert_bulk_loop cols reports_data 0 0 st of
        (Inl e, st') \<Rightarrow> (Inl e, st')
      | (Inr (c, u), st') \<Rightarrow>
          (Inr \<lparr>created = c, updated = u, total_count = length reports_data\<rparr>, st'))"

definition delete :: "int \<Rightarrow> store \<Rightarrow> (error + bool) \<times> store" where
  "delete report_id st =
     (case get_by_id report_id st of
        Inl e \<Rightarrow> (Inl e, st)
      | Inr None \<Rightarrow> (Inr False, st)
      | Inr (Some report) \<Rightarrow>
          (Inr True, st\<lparr>rows := filter (\<lambda>r. id_col r \<noteq> id_col report) (rows st)\<rparr>))"

definition delete_by_symbol :: "string \<Rightarrow> store \<Rightarrow> nat \<times> store" where
  "delete_by_symbol symb st =
     (length (filter (\<lambda>r. sql_eq (collation st) (symbol r) (VStr (lower symb))) (rows st)),
      st\<lparr>rows := filter (\<lambda>r. \<not> sql_eq (collation st) (symbol r) (VStr (lower symb))) (rows st)\<rparr>)"

text \<open>The method \<open>count\<close> is \<open>count_all\<close> here, and the key \<open>total\<close> of the statistics of
  \<open>upsert_bulk\<close> is the field \<open>total_count\<close>.\<close>

definition count_all :: "store \<Rightarrow> nat" where
  "count_all st = length (rows st)"

definition count_by_symbol :: "string \<Rightarrow> store \<Rightarrow> nat" where
  "count_by_symbol symb st =
     length (filter (\<lambda>r. sql_eq (collation st) (symbol r) (VStr (lower symb))) (rows st))"

subsection \<open>\<open>get_all\<close>: ordering and pagination\<close>

text \<open>
  The order of the values of a column in \<open>ORDER BY\<close>: \<open>NULL\<close> comes first, integers are
  ordered by value and strings by the sort key of the collation. A column holds values
  of one type; between an integer and a string the integer comes first.
\<close>

fun val_less :: "collation \<Rightarrow> val \<Rightarrow> val \<Rightarrow> bool" where
  "val_less ck VNone VNone = False"
| "val_less ck VNone v = True"
| "val_less ck (VInt a) (VInt b) = (a < b)"
| "val_less ck (VInt a) (VStr t) = True"
| "val_less ck (VStr s) (VStr t) = (ck s < ck t)"
| "val_less ck u v = False"

text \<open>
  A list of sort columns: the first column decides, and the next one decides between
  rows that the first does not tell apart.
\<close>

definition lex_ord :: "('a \<Rightarrow> 'a \<Rightarrow> bool) \<Rightarrow> ('a \<Rightarrow> 'a \<Rightarrow> bool) \<Rightarrow> 'a \<Rightarrow> 'a \<Rightarrow> bool" where
  "lex_ord r1 r2 a b = (r1 a b \<or> (\<not> r1 b a \<and> r2 a b))"

text \<open>
  \<open>ORDER BY symbol, report_year DESC, report_quarter\<close>: the row \<open>a\<close> sorts strictly before
  the row \<open>b\<close>; and \<open>a\<close> may come before \<open>b\<close> when \<open>b\<close> does not sort strictly before \<open>a\<close>.
\<close>

definition order_before :: "collation \<Rightarrow> FinancialReport \<Rightarrow> FinancialReport \<Rightarrow> bool" where
  "order_before ck =
     lex_ord (\<lambda>a b. val_less ck (symbol a) (symbol b))
       (lex_ord (\<lambda>a b. val_less ck (report_year b) (report_year a))
          (\<lambda>a b. val_less ck (report_quarter a) (report_quarter b)))"

definition order_le :: "collation \<Rightarrow> FinancialReport \<Rightarrow> FinancialReport \<Rightarrow> bool" where
  "order_le ck a b = (\<not> order_before ck b a)"

fun insort_by :: "('a \<Rightarrow> 'a \<Rightarrow> bool) \<Rightarrow> 'a \<Rightarrow> 'a list \<Rightarrow> 'a list" where
  "insort_by le x [] = [x]"
| "insort_by le x (y # ys) = (if le x y then x # y # ys else y # insort_by le x ys)"

definition order_by :: "('a \<Rightarrow> 'a \<Rightarrow> bool) \<Rightarrow> 'a list \<Rightarrow> 'a list" where
  "order_by le xs = foldr (insort_by le) xs []"

text \<open>\<open>OFFSET n\<close> and \<open>LIMIT n\<close>; the server rejects a negative row count.\<close>

definition sql_offset :: "int \<Rightarrow> 'a list \<Rightarrow> error + 'a list" where
  "sql_offset n xs = (if n < 0 then Inl DBAPIError else Inr (drop (nat n) xs))"

definition sql_limit :: "int \<Rightarrow> 'a list \<Rightarrow> error + 'a list" where
  "sql_limit n xs = (if n < 0 then Inl DBAPIError else Inr (take (nat n) xs))"

text \<open>
  \<open>get_all\<close>: \<open>if offset:\<close> and \<open>if limit:\<close> test the truth value of the argument, which is
  false for \<open>None\<close> and for \<open>0\<close>.
\<close>

definition get_all :: "int option \<Rightarrow> int option \<Rightarrow> store \<Rightarrow> error + FinancialReport list" where
  "get_all limit offset st =
     (let stmt = order_by (order_le (collation st)) (rows st);
          stmt1 = (case offset of
                     None \<Rightarrow> Inr stmt
                   | Some n \<Rightarrow> if n \<noteq> 0 then sql_offset n stmt else Inr stmt)
      in case stmt1 of
           Inl e \<Rightarrow> Inl e
         | Inr xs \<Rightarrow>
             (case limit of
                None \<Rightarrow> Inr xs
              | Some n \<Rightarrow> if n \<noteq> 0 then sql_limit n xs else Inr xs))"

subsection \<open>The business key\<close>

text \<open>
  A record has the business key \<open>(s, t, y, q)\<close>, as the lookup of \<open>find_duplicate\<close> sees it
  under the collation \<open>ck\<close>.
\<close>

definition has_key :: "collation \<Rightarrow> string \<Rightarrow> val \<Rightarrow> val \<Rightarrow> val \<Rightarrow> FinancialReport \<Rightarrow> bool" where
  "has_key ck s t y q r =
     (sql_eq ck (symbol r) (VStr (lower s)) \<and> sql_eq ck (report_type r) t \<and>
      report_year r = y \<and> report_quarter r = q)"

text \<open>
  A payload carries the business key: its keys are distinct (it is a dictionary), it has
  the symbol \<open>s\<close>, a string, the type and the year, and its quarter, read as
  \<open>report_data.get("report_quarter")\<close> reads it, is \<open>q\<close>.
\<close>

definition carries_key :: "payload \<Rightarrow> string \<Rightarrow> val \<Rightarrow> val \<Rightarrow> val \<Rightarrow> bool" where
  "carries_key p s t y q =
     (distinct (map fst p) \<and>
      map_of p ''symbol'' = Some (VStr s) \<and>
      map_of p ''report_type'' = Some t \<and>
      map_of p ''report_year'' = Some y \<and>
      (case map_of p ''report_quarter'' of None \<Rightarrow> VNone | Some v \<Rightarrow> v) = q)"

text \<open>What the entity keeps when the value \<open>v\<close> is assigned to the attribute \<open>k\<close>.\<close>

definition kept_value :: "string \<Rightarrow> val \<Rightarrow> val" where
  "kept_value k v = (if k = ''symbol'' then normalize_symbol v else v)"

subsection \<open>Concrete stores and payloads\<close>

definition cols0 :: "string list" where
  "cols0 = [''title'', ''url'']"

definition store_empty :: store where
  "store_empty = \<lparr>rows = [], next_id = 1, collation = case_insensitive\<rparr>"

text \<open>An annual report (no quarter) and a report of the same year stored with quarter \<open>0\<close>.\<close>

definition annual_2023 :: FinancialReport where
  "annual_2023 =
     \<lparr>id_col = VInt 1, symbol = VStr ''xyz'', report_type = VStr ''annual'',
      report_year = VInt 2023, report_quarter = VNone, body = []\<rparr>"

definition annual_2023_q0 :: FinancialReport where
  "annual_2023_q0 =
     \<lparr>id_col = VInt 2, symbol = VStr ''xyz'', report_type = VStr ''annual'',
      report_year = VInt 2023, report_quarter = VInt 0, body = []\<rparr>"

definition store_q :: store where
  "store_q = \<lparr>rows = [annual_2023, annual_2023_q0], next_id = 3, collation = case_insensitive\<rparr>"

text \<open>The fixtures of the ordering property, in the order they were stored.\<close>

definition a_2022_q2 :: FinancialReport where
  "a_2022_q2 =
     \<lparr>id_col = VInt 1, symbol = VStr ''a'', report_type = VStr ''quarterly'',
      report_year = VInt 2022, report_quarter = VInt 2, body = []\<rparr>"

definition a_2023 :: FinancialReport where
  "a_2023 =
     \<lparr>id_col = VInt 2, symbol = VStr ''a'', report_type = VStr ''annual'',
      report_year = VInt 2023, report_quarter = VNone, body = []\<rparr>"

definition a_2022_q1 :: FinancialReport where
  "a_2022_q1 =
     \<lparr>id_col = VInt 3, symbol = VStr ''a'', report_type = VStr ''quarterly'',
      report_year = VInt 2022, report_quarter = VInt 1, body = []\<rparr>"

definition fixtures :: store where
  "fixtures =
     \<lparr>rows = [a_2022_q2, a_2023, a_2022_q1], next_id = 4, collation = case_insensitive\<rparr>"

text \<open>
  The same fixtures after a record of a second symbol, of a later year and with no
  quarter, which the order by symbol puts last.
\<close>

definition b_2024 :: FinancialReport where
  "b_2024 =
     \<lparr>id_col = VInt 4, symbol = VStr ''b'', report_type = VStr ''annual'',
      report_year = VInt 2024, report_quarter = VNone, body = []\<rparr>"

definition fixtures_two_symbols :: store where
  "fixtures_two_symbols =
     \<lparr>rows = [b_2024, a_2022_q2, a_2023, a_2022_q1], next_id = 5,
      collation = case_insensitive\<rparr>"

text \<open>Payloads: two with the business key (abc, annual, 2023, no quarter), two with the
  same key written with the symbol in upper case, and one without a symbol.\<close>

definition payload_abc_first :: payload where
  "payload_abc_first =
     [(''symbol'', VStr ''abc''), (''report_type'', VStr ''annual''),
      (''report_year'', VInt 2023), (''title'', VStr ''first'')]"

definition payload_abc_second :: payload where
  "payload_abc_second =
     [(''symbol'', VStr ''abc''), (''report_type'', VStr ''annual''),
      (''report_year'', VInt 2023), (''title'', VStr ''second'')]"

definition payload_ABC_first :: payload where
  "payload_ABC_first =
     [(''symbol'', VStr ''ABC''), (''report_type'', VStr ''annual''),
      (''report_year'', VInt 2023), (''title'', VStr ''first'')]"

definition payload_ABC_second :: payload where
  "payload_ABC_second =
     [(''symbol'', VStr ''ABC''), (''report_type'', VStr ''annual''),
      (''report_year'', VInt 2023), (''title'', VStr ''second'')]"

definition payload_no_symbol :: payload where
  "payload_no_symbol =
     [(''report_type'', VStr ''annual''), (''report_year'', VInt 2023)]"

text \<open>The record that these payloads give, with the id \<open>1\<close>, before and after the update.\<close>

definition report_abc_first :: FinancialReport where
  "report_abc_first =
     \<lparr>id_col = VInt 1, symbol = VStr ''abc'', report_type = VStr ''annual'',
      report_year = VInt 2023, report_quarter = VNone, body = [(''title'', VStr ''first'')]\<rparr>"

definition report_abc_second :: FinancialReport where
  "report_abc_second =
     \<lparr>id_col = VInt 1, symbol = VStr ''abc'', report_type = VStr ''annual'',
      report_year = VInt 2023, report_quarter = VNone, body = [(''title'', VStr ''second'')]\<rparr>"

definition store_abc :: store where
  "store_abc = \<lparr>rows = [report_abc_first], next_id = 2, collation = case_insensitive\<rparr>"

definition store_abc_second :: store where
  "store_abc_second =
     \<lparr>rows = [report_abc_second], next_id = 2, collation = case_insensitive\<rparr>"

section \<open>Properties of the bootstrap\<close>

lemmas boot_defs = verify_conn_def db_exists_def tables_exist_def sync_tables_def cleanup_def
  initialize_final_def initialize_try_def initialize_def get_engine_def required_tables_def Let_def

text \<open>
  Claim C3 says that a failed connectivity check makes \<open>initialize\<close> raise. It does not:
  on the unreachable server \<open>initialize\<close> returns \<open>False\<close>.
\<close>

theorem initialize_conn_failure_returns_false:
  "fst (verify_conn world_down) = False \<and> fst (initialize upgrade_ok world_down) = Inr False"
  by (simp add: boot_defs world_down_def upgrade_ok_def)

text \<open>
  Claim C3, as amended: when \<open>verify_conn\<close> fails, \<open>initialize\<close> stops at once (the
  migration is not run, the server is left as it was), and the \<open>RuntimeError\<close> it raises
  is caught by its own handler, so that it returns \<open>False\<close>, for every migration engine.
\<close>

theorem initialize_conn_failure:
  assumes "fst (verify_conn w) = False"
  shows "fst (initialize upgrade w) = Inr False \<and> srv (snd (initialize upgrade w)) = srv w"
  using assms
  by (simp add: verify_conn_def initialize_try_def initialize_def cleanup_def Let_def
      split: if_splits)

theorem initialize_conn_failure_witness:
  "fst (verify_conn world_down) = False \<and>
   fst (initialize upgrade_ok world_down) = Inr False \<and>
   srv (snd (initialize upgrade_ok world_down)) = srv world_down"
  using initialize_conn_failure [of world_down upgrade_ok]
  by (simp add: verify_conn_def world_down_def get_engine_def)

text \<open>
  Claim C4 says that \<open>initialize\<close> returns \<open>False\<close> when the tables exist and the
  migration fails. On the ready server with a failing migration it returns \<open>True\<close>.
\<close>

theorem initialize_tolerated_sync_failure_returns_true:
  "verify_conn world_ready = (True, world_ready) \<and>
   db_exists world_ready = (True, world_ready) \<and>
   tables_exist world_ready = (True, world_ready) \<and>
   sync_tables upgrade_fails world_ready = (Inr False, world_ready) \<and>
   fst (initialize upgrade_fails world_ready) = Inr True"
  by (simp add: boot_defs world_ready_def manager_live_def upgrade_fails_def)

text \<open>
  Claim C4, as amended: when the connectivity check and the database check succeed, the
  tables exist and \<open>sync_tables\<close> then fails by returning \<open>False\<close> (the migration raised an
  exception that \<open>sync_tables\<close> catches), \<open>initialize\<close> does not abort and returns what the
  final \<open>tables_exist\<close> check finds after the failed synchronization. An exception that
  \<open>sync_tables\<close> does not catch is not covered here: it leaves \<open>initialize\<close> as well.
\<close>

theorem initialize_tolerated_sync_failure:
  assumes "verify_conn w0 = (True, w1)" and "db_exists w1 = (True, w2)"
    and "tables_exist w2 = (True, w3)" and "sync_tables upgrade w3 = (Inr False, w4)"
  shows "fst (initialize upgrade w0) = Inr (fst (tables_exist w4))"
  using assms
  by (simp add: initialize_def initialize_try_def initialize_final_def split: prod.splits)

theorem initialize_tolerated_sync_failure_witness:
  "verify_conn world_ready = (True, world_ready) \<and>
   db_exists world_ready = (True, world_ready) \<and>
   tables_exist world_ready = (True, world_ready) \<and>
   sync_tables upgrade_fails world_ready = (Inr False, world_ready) \<and>
   fst (initialize upgrade_fails world_ready) = Inr (fst (tables_exist world_ready))"
proof -
  have a: "verify_conn world_ready = (True, world_ready)"
    by (simp add: boot_defs world_ready_def manager_live_def)
  have b: "db_exists world_ready = (True, world_ready)"
    by (simp add: boot_defs world_ready_def manager_live_def)
  have c: "tables_exist world_ready = (True, world_ready)"
    by (simp add: boot_defs world_ready_def manager_live_def)
  have d: "sync_tables upgrade_fails world_ready = (Inr False, world_ready)"
    by (simp add: boot_defs world_ready_def manager_live_def upgrade_fails_def)
  from initialize_tolerated_sync_failure [OF a b c d] a b c d show ?thesis by simp
qed

text \<open>
  The other way \<open>sync_tables\<close> can fail: an exception that it does not catch is neither a
  \<open>SQLAlchemyError\<close> nor a \<open>RuntimeError\<close>, so \<open>initialize\<close> does not catch it either.
\<close>

lemma sync_tables_raises:
  assumes "sync_tables upgrade w = (Inl e, w')"
  shows "e \<noteq> SQLAlchemyError \<and> e \<noteq> RuntimeError \<and> e \<noteq> FileNotFoundError"
  using assms
  by (auto simp: sync_tables_def Let_def split: prod.splits option.splits if_splits)

lemma initialize_sync_exception_propagates:
  assumes "verify_conn w0 = (True, w1)" and "db_exists w1 = (True, w2)"
    and "tables_exist w2 = (te, w3)" and "sync_tables upgrade w3 = (Inl e, w4)"
  shows "fst (initialize upgrade w0) = Inl e"
  using assms sync_tables_raises [OF assms(4)]
  by (simp add: initialize_def initialize_try_def split: prod.splits)

text \<open>
  Claim C5 says that the result is that of \<open>tables_exist\<close> after the synchronization in
  every branch. Where the tables are missing and the migration creates them before it
  fails, \<open>tables_exist\<close> holds afterwards and \<open>initialize\<close> returns \<open>False\<close>.
\<close>

theorem initialize_missing_tables_sync_failure_returns_false:
  "verify_conn world_empty = (True, world_empty) \<and>
   db_exists world_empty = (True, world_empty) \<and>
   tables_exist world_empty = (False, world_empty) \<and>
   sync_tables upgrade_partial world_empty =
     (Inr False, world_empty\<lparr>srv := (srv world_empty)\<lparr>tables := required_tables\<rparr>\<rparr>) \<and>
   fst (tables_exist (world_empty\<lparr>srv := (srv world_empty)\<lparr>tables := required_tables\<rparr>\<rparr>)) = True \<and>
   fst (initialize upgrade_partial world_empty) = Inr False"
  by (simp add: boot_defs world_empty_def manager_live_def upgrade_partial_def)

text \<open>
  Claim C5, as amended: when the connectivity check and the database check succeed and
  \<open>sync_tables\<close> returns, \<open>initialize\<close> returns \<open>False\<close> if the tables were missing and
  \<open>sync_tables\<close> failed (the tables are not checked again), and otherwise returns what
  \<open>tables_exist\<close> finds after the synchronization.
\<close>

theorem initialize_result:
  assumes "verify_conn w0 = (True, w1)" and "db_exists w1 = (True, w2)"
    and "tables_exist w2 = (te, w3)" and "sync_tables upgrade w3 = (Inr synced, w4)"
  shows "fst (initialize upgrade w0) =
           Inr (if \<not> te \<and> \<not> synced then False else fst (tables_exist w4))"
  using assms
  by (simp add: initialize_def initialize_try_def initialize_final_def split: prod.splits)

theorem initialize_result_witness:
  "verify_conn world_empty = (True, world_empty) \<and>
   db_exists world_empty = (True, world_empty) \<and>
   tables_exist world_empty = (False, world_empty) \<and>
   sync_tables upgrade_ok world_empty =
     (Inr True, world_empty\<lparr>srv := (srv world_empty)\<lparr>tables := required_tables\<rparr>\<rparr>) \<and>
   fst (initialize upgrade_ok world_empty) = Inr True"
proof -
  let ?w4 = "world_empty\<lparr>srv := (srv world_empty)\<lparr>tables := required_tables\<rparr>\<rparr>"
  have a: "verify_conn world_empty = (True, world_empty)"
    by (simp add: boot_defs world_empty_def manager_live_def)
  have b: "db_exists world_empty = (True, world_empty)"
    by (simp add: boot_defs world_empty_def manager_live_def)
  have c: "tables_exist world_empty = (False, world_empty)"
    by (simp add: boot_defs world_empty_def manager_live_def)
  have d: "sync_tables upgrade_ok world_empty = (Inr True, ?w4)"
    by (simp add: boot_defs world_empty_def manager_live_def upgrade_ok_def)
  have e: "fst (tables_exist ?w4) = True"
    by (simp add: boot_defs world_empty_def manager_live_def)
  from initialize_result [OF a b c d] a b c d e show ?thesis by simp
qed

section \<open>Properties of the report repository\<close>

subsection \<open>Strings\<close>

lemma lower_a: "lower ''a'' = ''a''" by code_simp
lemma lower_b: "lower ''b'' = ''b''" by code_simp
lemma lower_abc: "lower ''abc'' = ''abc''" by code_simp
lemma lower_ABC: "lower ''ABC'' = ''abc''" by code_simp
lemma lower_xyz: "lower ''xyz'' = ''xyz''" by code_simp
lemma lower_annual: "lower ''annual'' = ''annual''" by code_simp
lemma lower_quarterly: "lower ''quarterly'' = ''quarterly''" by code_simp

lemma lower_char_idem: "lower_char (lower_char c) = lower_char c"
proof -
  let ?n = "of_char c :: nat"
  let ?up = "\<lambda>n::nat. (65 \<le> n \<and> n \<le> 90) \<or> (192 \<le> n \<and> n \<le> 222 \<and> n \<noteq> 215)"
  have eq: "\<And>d. lower_char d =
      (if ?up (of_char d) then char_of ((of_char d :: nat) + 32) else d)"
    by (simp only: lower_char_def Let_def)
  show ?thesis
  proof (cases "?up ?n")
    case True
    with eq [of c] have l: "lower_char c = char_of (?n + 32)"
      by (simp only: if_True)
    from True have "(of_char (char_of (?n + 32)) :: nat) = ?n + 32"
      by auto
    with True have "\<not> ?up (of_char (char_of (?n + 32)))"
      by auto
    with eq [of "char_of (?n + 32)"]
    have "lower_char (char_of (?n + 32)) = char_of (?n + 32)"
      by (simp only: if_False)
    with l show ?thesis by simp
  next
    case False
    with eq [of c] have "lower_char c = c"
      by (simp only: if_False)
    then show ?thesis by simp
  qed
qed

lemma lower_idem: "lower (lower s) = lower s"
  by (simp add: lower_def lower_char_idem)

lemma sql_eq_refl: "sql_eq ck v v"
  by (cases v) simp_all

lemma sql_eq_sym: "sql_eq ck u v = sql_eq ck v u"
  by (cases u; cases v) auto

lemma normalize_symbol_idem: "normalize_symbol (normalize_symbol v) = normalize_symbol v"
  by (cases v) (simp_all add: lower_idem)

subsection \<open>Lookups\<close>

lemma scalar_one_or_none_Some: "scalar_one_or_none xs = Inr (Some r) \<Longrightarrow> xs = [r]"
  by (cases xs rule: scalar_one_or_none.cases) auto

lemma filter_singleton: "filter P xs = [r] \<Longrightarrow> r \<in> set xs \<and> P r"
proof -
  assume "filter P xs = [r]"
  then have "r \<in> set (filter P xs)" by simp
  then show ?thesis by simp
qed

lemma find_duplicate_filter:
  "find_duplicate s t y q st =
     scalar_one_or_none (filter (has_key (collation st) s t y q) (rows st))"
proof -
  have "has_key (collation st) s t y q =
          (\<lambda>r. (sql_eq (collation st) (symbol r) (VStr (lower s)) \<and>
                 sql_eq (collation st) (report_type r) t \<and> report_year r = y) \<and>
                report_quarter r = q)"
    by (rule ext) (simp add: has_key_def)
  then show ?thesis
    by (cases "q = VNone") (simp_all add: find_duplicate_def)
qed

lemma find_duplicate_Some:
  assumes "find_duplicate s t y q st = Inr (Some r)"
  shows "r \<in> set (rows st) \<and> sql_eq (collation st) (symbol r) (VStr (lower s)) \<and>
         sql_eq (collation st) (report_type r) t \<and> report_year r = y \<and> report_quarter r = q"
proof -
  from assms have "filter (has_key (collation st) s t y q) (rows st) = [r]"
    by (simp add: find_duplicate_filter scalar_one_or_none_Some)
  from filter_singleton [OF this] show ?thesis by (simp add: has_key_def)
qed

text \<open>
  Claim C7: \<open>find_duplicate\<close> without a quarter returns only a record whose stored quarter
  is null, and with a quarter only a record whose stored quarter is that value, hence
  not null. A stored quarter \<open>0\<close> is not null.
\<close>

theorem find_duplicate_quarter_partition:
  "(find_duplicate s t y VNone st = Inr (Some r) \<longrightarrow>
      r \<in> set (rows st) \<and> report_quarter r = VNone) \<and>
   (q \<noteq> VNone \<and> find_duplicate s t y q st = Inr (Some r) \<longrightarrow>
      r \<in> set (rows st) \<and> report_quarter r = q \<and> report_quarter r \<noteq> VNone)"
  using find_duplicate_Some [of s t y VNone st r] find_duplicate_Some [of s t y q st r]
  by auto

theorem find_duplicate_quarter_partition_witness:
  "find_duplicate ''xyz'' (VStr ''annual'') (VInt 2023) VNone store_q = Inr (Some annual_2023) \<and>
   report_quarter annual_2023 = VNone \<and>
   find_duplicate ''xyz'' (VStr ''annual'') (VInt 2023) (VInt 0) store_q =
     Inr (Some annual_2023_q0) \<and>
   report_quarter annual_2023_q0 = VInt 0"
proof -
  have a: "find_duplicate ''xyz'' (VStr ''annual'') (VInt 2023) VNone store_q =
             Inr (Some annual_2023)"
    by (simp add: find_duplicate_def store_q_def annual_2023_def annual_2023_q0_def lower_xyz)
  have b: "find_duplicate ''xyz'' (VStr ''annual'') (VInt 2023) (VInt 0) store_q =
             Inr (Some annual_2023_q0)"
    by (simp add: find_duplicate_def store_q_def annual_2023_def annual_2023_q0_def lower_xyz)
  from find_duplicate_quarter_partition
         [of "''xyz''" "VStr ''annual''" "VInt 2023" store_q annual_2023 "VInt 0"]
       find_duplicate_quarter_partition
         [of "''xyz''" "VStr ''annual''" "VInt 2023" store_q annual_2023_q0 "VInt 0"] a b
  show ?thesis by simp
qed

subsection \<open>Ordering and pagination of \<open>get_all\<close>\<close>

lemma mset_insort_by: "mset (insort_by le x xs) = add_mset x (mset xs)"
  by (induction xs) auto

lemma mset_order_by: "mset (order_by le xs) = mset xs"
  by (induction xs) (auto simp: order_by_def mset_insort_by)

lemma set_insort_by: "set (insort_by le x xs) = insert x (set xs)"
  by (induction xs) auto

lemma sorted_insort_by:
  assumes tot: "\<And>a b. \<not> le a b \<Longrightarrow> le b a"
    and trans: "\<And>a b c. le a b \<Longrightarrow> le b c \<Longrightarrow> le a c"
  shows "sorted_wrt le xs \<Longrightarrow> sorted_wrt le (insort_by le x xs)"
proof (induction xs)
  case Nil
  then show ?case by simp
next
  case (Cons y ys)
  show ?case
  proof (cases "le x y")
    case True
    with Cons.prems trans show ?thesis by auto
  next
    case False
    then have "le y x" by (rule tot)
    with Cons False show ?thesis by (auto simp: set_insort_by)
  qed
qed

lemma sorted_order_by:
  assumes tot: "\<And>a b. \<not> le a b \<Longrightarrow> le b a"
    and trans: "\<And>a b c. le a b \<Longrightarrow> le b c \<Longrightarrow> le a c"
  shows "sorted_wrt le (order_by le xs)"
proof (induction xs)
  case Nil
  then show ?case by (simp add: order_by_def)
next
  case (Cons x xs)
  have "order_by le (x # xs) = insort_by le x (order_by le xs)"
    by (simp add: order_by_def)
  with Cons sorted_insort_by [of le, OF tot trans] show ?case by simp
qed

lemma val_less_asym: "val_less ck a b \<Longrightarrow> \<not> val_less ck b a"
  by (cases a; cases b) auto

lemma val_less_negtrans: "\<not> val_less ck a b \<Longrightarrow> \<not> val_less ck b c \<Longrightarrow> \<not> val_less ck a c"
  by (cases a; cases b; cases c) auto

lemma lex_ord_asym:
  assumes "\<forall>x y. r1 x y \<longrightarrow> \<not> r1 y x" and "\<forall>x y. r2 x y \<longrightarrow> \<not> r2 y x"
  shows "\<forall>a b. lex_ord r1 r2 a b \<longrightarrow> \<not> lex_ord r1 r2 b a"
  using assms by (auto simp: lex_ord_def)

lemma lex_ord_negtrans:
  assumes n1: "\<forall>x y z. \<not> r1 x y \<longrightarrow> \<not> r1 y z \<longrightarrow> \<not> r1 x z"
    and n2: "\<forall>x y z. \<not> r2 x y \<longrightarrow> \<not> r2 y z \<longrightarrow> \<not> r2 x z"
  shows "\<forall>a b c. \<not> lex_ord r1 r2 a b \<longrightarrow> \<not> lex_ord r1 r2 b c \<longrightarrow> \<not> lex_ord r1 r2 a c"
proof (intro allI impI)
  fix a b c
  assume ab: "\<not> lex_ord r1 r2 a b" and bc: "\<not> lex_ord r1 r2 b c"
  from ab have ab1: "\<not> r1 a b" and ab2: "r1 b a \<or> \<not> r2 a b" by (auto simp: lex_ord_def)
  from bc have bc1: "\<not> r1 b c" and bc2: "r1 c b \<or> \<not> r2 b c" by (auto simp: lex_ord_def)
  from n1 ab1 bc1 have ac1: "\<not> r1 a c" by blast
  have "r1 c a \<or> \<not> r2 a c"
  proof (cases "r1 c a")
    case True
    then show ?thesis by simp
  next
    case False
    from n1 bc1 False have "\<not> r1 b a" by blast
    with ab2 have x: "\<not> r2 a b" by simp
    from n1 False ab1 have "\<not> r1 c b" by blast
    with bc2 have "\<not> r2 b c" by simp
    with n2 x show ?thesis by blast
  qed
  with ac1 show "\<not> lex_ord r1 r2 a c" by (auto simp: lex_ord_def)
qed

lemma order_before_asym:
  assumes "order_before ck a b"
  shows "\<not> order_before ck b a"
proof -
  let ?r1 = "\<lambda>a b. val_less ck (symbol a) (symbol b)"
  let ?r2 = "\<lambda>a b. val_less ck (report_year b) (report_year a)"
  let ?r3 = "\<lambda>a b. val_less ck (report_quarter a) (report_quarter b)"
  have a1: "\<forall>x y. ?r1 x y \<longrightarrow> \<not> ?r1 y x" using val_less_asym by blast
  have a2: "\<forall>x y. ?r2 x y \<longrightarrow> \<not> ?r2 y x" using val_less_asym by blast
  have a3: "\<forall>x y. ?r3 x y \<longrightarrow> \<not> ?r3 y x" using val_less_asym by blast
  have a23: "\<forall>x y. lex_ord ?r2 ?r3 x y \<longrightarrow> \<not> lex_ord ?r2 ?r3 y x"
    by (rule lex_ord_asym [of ?r2 ?r3, OF a2 a3])
  have "\<forall>x y. lex_ord ?r1 (lex_ord ?r2 ?r3) x y \<longrightarrow> \<not> lex_ord ?r1 (lex_ord ?r2 ?r3) y x"
    by (rule lex_ord_asym [of ?r1 "lex_ord ?r2 ?r3", OF a1 a23])
  with assms show ?thesis unfolding order_before_def by blast
qed

lemma order_before_negtrans:
  assumes "\<not> order_before ck a b" and "\<not> order_before ck b c"
  shows "\<not> order_before ck a c"
proof -
  let ?r1 = "\<lambda>a b. val_less ck (symbol a) (symbol b)"
  let ?r2 = "\<lambda>a b. val_less ck (report_year b) (report_year a)"
  let ?r3 = "\<lambda>a b. val_less ck (report_quarter a) (report_quarter b)"
  have n1: "\<forall>x y z. \<not> ?r1 x y \<longrightarrow> \<not> ?r1 y z \<longrightarrow> \<not> ?r1 x z"
    using val_less_negtrans by blast
  have n2: "\<forall>x y z. \<not> ?r2 x y \<longrightarrow> \<not> ?r2 y z \<longrightarrow> \<not> ?r2 x z"
    using val_less_negtrans by blast
  have n3: "\<forall>x y z. \<not> ?r3 x y \<longrightarrow> \<not> ?r3 y z \<longrightarrow> \<not> ?r3 x z"
    using val_less_negtrans by blast
  have n23: "\<forall>x y z. \<not> lex_ord ?r2 ?r3 x y \<longrightarrow> \<not> lex_ord ?r2 ?r3 y z \<longrightarrow>
               \<not> lex_ord ?r2 ?r3 x z"
    by (rule lex_ord_negtrans [of ?r2 ?r3, OF n2 n3])
  have "\<forall>x y z. \<not> lex_ord ?r1 (lex_ord ?r2 ?r3) x y \<longrightarrow>
          \<not> lex_ord ?r1 (lex_ord ?r2 ?r3) y z \<longrightarrow> \<not> lex_ord ?r1 (lex_ord ?r2 ?r3) x z"
    by (rule lex_ord_negtrans [of ?r1 "lex_ord ?r2 ?r3", OF n1 n23])
  with assms show ?thesis unfolding order_before_def by blast
qed

lemma order_le_total: "\<not> order_le ck a b \<Longrightarrow> order_le ck b a"
  using order_before_asym [of ck b a] by (auto simp: order_le_def)

lemma order_le_trans: "order_le ck a b \<Longrightarrow> order_le ck b c \<Longrightarrow> order_le ck a c"
  using order_before_negtrans [of ck c b a] by (auto simp: order_le_def)

lemma sorted_order_by_order_le: "sorted_wrt (order_le ck) (order_by (order_le ck) xs)"
  by (rule sorted_order_by) (auto intro: order_le_total order_le_trans)

text \<open>What \<open>order_le\<close> says of the three sort columns.\<close>

lemma order_le_columns:
  "order_le ck a b \<Longrightarrow>
     \<not> val_less ck (symbol b) (symbol a) \<and>
     (\<not> val_less ck (symbol a) (symbol b) \<longrightarrow>
        \<not> val_less ck (report_year a) (report_year b) \<and>
        (\<not> val_less ck (report_year b) (report_year a) \<longrightarrow>
           \<not> val_less ck (report_quarter b) (report_quarter a)))"
  by (auto simp: order_le_def order_before_def lex_ord_def)

lemma sorted_columns:
  assumes s: "sorted_wrt (order_le ck) xs"
  shows "sorted_wrt
        (\<lambda>a b. \<not> val_less ck (symbol b) (symbol a) \<and>
           (\<not> val_less ck (symbol a) (symbol b) \<longrightarrow>
              \<not> val_less ck (report_year a) (report_year b) \<and>
              (\<not> val_less ck (report_year b) (report_year a) \<longrightarrow>
                 \<not> val_less ck (report_quarter b) (report_quarter a)))) xs"
  using s
proof (induction xs)
  case Nil
  then show ?case by simp
next
  case (Cons x xs)
  from Cons.prems have "\<forall>y \<in> set xs. order_le ck x y" and "sorted_wrt (order_le ck) xs"
    by simp_all
  with Cons.IH order_le_columns [of ck x] show ?case by simp
qed

lemma sorted_wrt_drop: "sorted_wrt P xs \<Longrightarrow> sorted_wrt P (drop n xs)"
  by (metis append_take_drop_id sorted_wrt_append)

lemma sorted_wrt_take: "sorted_wrt P xs \<Longrightarrow> sorted_wrt P (take n xs)"
  by (metis append_take_drop_id sorted_wrt_append)

lemma get_all_sorted:
  "get_all lim off st = Inr xs \<Longrightarrow> sorted_wrt (order_le (collation st)) xs"
  using sorted_order_by_order_le [of "collation st" "rows st"]
  by (auto simp: get_all_def sql_offset_def sql_limit_def Let_def sorted_wrt_drop sorted_wrt_take
      split: option.splits if_splits sum.splits)

lemma get_all_None: "get_all None None st = Inr (order_by (order_le (collation st)) (rows st))"
  by (simp add: get_all_def)

lemmas order_eval = get_all_def order_by_def order_le_def order_before_def lex_ord_def
  case_insensitive_def lower_a lower_b

lemma get_all_fixtures: "get_all None None fixtures = Inr [a_2023, a_2022_q1, a_2022_q2]"
  by (simp add: order_eval fixtures_def a_2022_q2_def a_2023_def a_2022_q1_def)

lemma get_all_fixtures_two_symbols:
  "get_all None None fixtures_two_symbols = Inr [a_2023, a_2022_q1, a_2022_q2, b_2024]"
  by (simp add: order_eval fixtures_two_symbols_def a_2022_q2_def a_2023_def a_2022_q1_def
      b_2024_def)

text \<open>
  Claim C9: whatever the pagination, in the list that \<open>get_all\<close> returns a record \<open>a\<close> that
  comes before a record \<open>b\<close> has a symbol that is not after the symbol of \<open>b\<close>; when the
  two symbols are level, the year of \<open>a\<close> is not before the year of \<open>b\<close>; and when the
  years are level too, the quarter of \<open>a\<close> is not after the quarter of \<open>b\<close>. Without
  pagination the list is a permutation of the stored records. On the fixtures
  (A,2022,Q2), (A,2023,None), (A,2022,Q1) the result is (A,2023,None), (A,2022,Q1),
  (A,2022,Q2), and a record (B,2024,None) stored before them comes last.
\<close>

theorem get_all_ordered:
  "(get_all lim off st = Inr xs \<longrightarrow>
      sorted_wrt
        (\<lambda>a b. \<not> val_less (collation st) (symbol b) (symbol a) \<and>
           (\<not> val_less (collation st) (symbol a) (symbol b) \<longrightarrow>
              \<not> val_less (collation st) (report_year a) (report_year b) \<and>
              (\<not> val_less (collation st) (report_year b) (report_year a) \<longrightarrow>
                 \<not> val_less (collation st) (report_quarter b) (report_quarter a)))) xs) \<and>
   (\<exists>ys. get_all None None st = Inr ys \<and> mset ys = mset (rows st)) \<and>
   get_all None None fixtures = Inr [a_2023, a_2022_q1, a_2022_q2] \<and>
   get_all None None fixtures_two_symbols = Inr [a_2023, a_2022_q1, a_2022_q2, b_2024]"
proof -
  have p1: "sorted_wrt
        (\<lambda>a b. \<not> val_less (collation st) (symbol b) (symbol a) \<and>
           (\<not> val_less (collation st) (symbol a) (symbol b) \<longrightarrow>
              \<not> val_less (collation st) (report_year a) (report_year b) \<and>
              (\<not> val_less (collation st) (report_year b) (report_year a) \<longrightarrow>
                 \<not> val_less (collation st) (report_quarter b) (report_quarter a)))) xs"
    if "get_all lim off st = Inr xs"
  proof -
    from that have "sorted_wrt (order_le (collation st)) xs" by (rule get_all_sorted)
    then show ?thesis by (rule sorted_columns)
  qed
  have p2: "\<exists>ys. get_all None None st = Inr ys \<and> mset ys = mset (rows st)"
    by (simp add: get_all_None mset_order_by)
  from p1 p2 get_all_fixtures get_all_fixtures_two_symbols show ?thesis
    by blast
qed

theorem get_all_ordered_witness:
  "get_all None None fixtures_two_symbols = Inr [a_2023, a_2022_q1, a_2022_q2, b_2024] \<and>
   sorted_wrt
     (\<lambda>a b. \<not> val_less case_insensitive (symbol b) (symbol a) \<and>
        (\<not> val_less case_insensitive (symbol a) (symbol b) \<longrightarrow>
           \<not> val_less case_insensitive (report_year a) (report_year b) \<and>
           (\<not> val_less case_insensitive (report_year b) (report_year a) \<longrightarrow>
              \<not> val_less case_insensitive (report_quarter b) (report_quarter a))))
     [a_2023, a_2022_q1, a_2022_q2, b_2024] \<and>
   mset [a_2023, a_2022_q1, a_2022_q2, b_2024] = mset (rows fixtures_two_symbols)"
proof -
  have c: "collation fixtures_two_symbols = case_insensitive"
    by (simp add: fixtures_two_symbols_def)
  have m: "mset [a_2023, a_2022_q1, a_2022_q2, b_2024] = mset (rows fixtures_two_symbols)"
    by (simp add: fixtures_two_symbols_def)
  from get_all_ordered [of None None fixtures_two_symbols "[a_2023, a_2022_q1, a_2022_q2, b_2024]"]
    get_all_fixtures_two_symbols
  have "sorted_wrt
     (\<lambda>a b. \<not> val_less (collation fixtures_two_symbols) (symbol b) (symbol a) \<and>
        (\<not> val_less (collation fixtures_two_symbols) (symbol a) (symbol b) \<longrightarrow>
           \<not> val_less (collation fixtures_two_symbols) (report_year a) (report_year b) \<and>
           (\<not> val_less (collation fixtures_two_symbols) (report_year b) (report_year a) \<longrightarrow>
              \<not> val_less (collation fixtures_two_symbols) (report_quarter b) (report_quarter a))))
     [a_2023, a_2022_q1, a_2022_q2, b_2024]"
    by blast
  with c m get_all_fixtures_two_symbols show ?thesis by simp
qed

text \<open>
  Claim C10: a limit of \<open>0\<close> and an offset of \<open>0\<close> are the same as no limit and no offset,
  so that \<open>get_all\<close> with both \<open>0\<close> returns all the records; a result that is not all the
  records comes from a strictly positive limit or offset.
\<close>

theorem get_all_zero_is_none:
  "get_all (Some 0) off st = get_all None off st \<and>
   get_all lim (Some 0) st = get_all lim None st \<and>
   (\<exists>ys. get_all (Some 0) (Some 0) st = Inr ys \<and> mset ys = mset (rows st)) \<and>
   (get_all lim off st = Inr xs \<and> mset xs \<noteq> mset (rows st) \<longrightarrow>
      (\<exists>n. lim = Some n \<and> 0 < n) \<or> (\<exists>n. off = Some n \<and> 0 < n))"
proof (intro conjI impI)
  show "get_all (Some 0) off st = get_all None off st"
    by (simp add: get_all_def Let_def split: sum.splits option.splits)
  show "get_all lim (Some 0) st = get_all lim None st"
    by (simp add: get_all_def Let_def split: sum.splits option.splits)
  show "\<exists>ys. get_all (Some 0) (Some 0) st = Inr ys \<and> mset ys = mset (rows st)"
    by (simp add: get_all_def mset_order_by)
  assume a: "get_all lim off st = Inr xs \<and> mset xs \<noteq> mset (rows st)"
  show "(\<exists>n. lim = Some n \<and> 0 < n) \<or> (\<exists>n. off = Some n \<and> 0 < n)"
  proof (rule ccontr)
    assume n: "\<not> ((\<exists>n. lim = Some n \<and> 0 < n) \<or> (\<exists>n. off = Some n \<and> 0 < n))"
    with a have "xs = order_by (order_le (collation st)) (rows st)"
      by (auto simp: get_all_def sql_offset_def sql_limit_def Let_def
          split: option.splits if_splits sum.splits)
    with a show False by (simp add: mset_order_by)
  qed
qed

theorem get_all_zero_is_none_witness:
  "get_all (Some 0) None fixtures = Inr [a_2023, a_2022_q1, a_2022_q2] \<and>
   get_all None (Some 0) fixtures = Inr [a_2023, a_2022_q1, a_2022_q2] \<and>
   get_all (Some 1) (Some 1) fixtures = Inr [a_2022_q1] \<and>
   mset [a_2022_q1] \<noteq> mset (rows fixtures)"
proof -
  have r: "get_all (Some 1) (Some 1) fixtures = Inr [a_2022_q1]"
    by (simp add: order_eval fixtures_def a_2022_q2_def a_2023_def
      a_2022_q1_def sql_offset_def sql_limit_def)
  have m: "mset [a_2022_q1] \<noteq> mset (rows fixtures)"
    by (simp add: fixtures_def)
  from get_all_zero_is_none [of None fixtures None "[a_2022_q1]"] get_all_fixtures r m
  show ?thesis by simp
qed

subsection \<open>Evaluation of \<open>upsert\<close> on the concrete payloads\<close>

lemmas store_eval = upsert_def find_duplicate_def FinancialReport_init_def hasattr_def
  key_columns_def setattr_def blank_report_def insert_row_def update_row_def cols0_def Let_def
  case_insensitive_def

lemma upsert_abc_first:
  "upsert cols0 payload_abc_first store_empty = (Inr (report_abc_first, True), store_abc)"
  by (simp add: store_eval payload_abc_first_def store_empty_def report_abc_first_def
      store_abc_def lower_abc)

lemma upsert_abc_second:
  "upsert cols0 payload_abc_second store_abc = (Inr (report_abc_second, False), store_abc_second)"
  by (simp add: store_eval payload_abc_second_def report_abc_first_def report_abc_second_def
      store_abc_def store_abc_second_def lower_abc lower_annual)

lemma upsert_no_symbol: "upsert cols0 payload_no_symbol st = (Inl KeyError, st)"
  by (simp add: upsert_def payload_no_symbol_def)

lemma upsert_ABC_first:
  "upsert cols0 payload_ABC_first store_empty = (Inr (report_abc_first, True), store_abc)"
  by (simp add: store_eval payload_ABC_first_def store_empty_def report_abc_first_def
      store_abc_def lower_ABC)

lemma upsert_ABC_second:
  "upsert cols0 payload_ABC_second store_abc = (Inr (report_abc_second, False), store_abc_second)"
  by (simp add: store_eval payload_ABC_second_def report_abc_first_def report_abc_second_def
      store_abc_def store_abc_second_def lower_ABC lower_abc lower_annual)

lemma upsert_bulk_abc_first:
  "upsert_bulk cols0 [payload_abc_first] store_empty =
     (Inr \<lparr>created = 1, updated = 0, total_count = 1\<rparr>, store_abc)"
  by (simp add: upsert_bulk_def upsert_abc_first)

subsection \<open>Bulk upsert\<close>

text \<open>An \<open>upsert\<close> that raises has committed nothing.\<close>

lemma upsert_failure_keeps_store: "upsert cols d st = (Inl e, st') \<Longrightarrow> st' = st"
  by (auto simp: upsert_def Let_def split: option.splits val.splits sum.splits prod.splits)

lemma upsert_bulk_loop_append:
  "upsert_bulk_loop cols (pre @ rest) c u st =
     (case upsert_bulk_loop cols pre c u st of
        (Inl e, st') \<Rightarrow> (Inl e, st')
      | (Inr (c', u'), st') \<Rightarrow> upsert_bulk_loop cols rest c' u' st')"
proof (induction pre arbitrary: c u st)
  case Nil
  then show ?case by simp
next
  case (Cons d ds)
  then show ?case
    by (simp split: prod.splits sum.splits)
qed

lemma upsert_bulk_loop_counts:
  "upsert_bulk_loop cols ds c u st = (Inr (c', u'), st') \<Longrightarrow> c' + u' = c + u + length ds"
proof (induction ds arbitrary: c u st)
  case Nil
  then show ?case by simp
next
  case (Cons d ds)
  then show ?case
    by (fastforce split: prod.splits sum.splits if_splits)
qed

text \<open>
  Claim C8: when the items before item N are processed successfully, leaving the store
  \<open>st1\<close>, and the \<open>upsert\<close> of item N raises, \<open>upsert_bulk\<close> raises that exception and the
  store is \<open>st1\<close>: what the earlier items committed stays. When \<open>upsert_bulk\<close> returns,
  \<open>total\<close> is the length of the list, and so is the sum of the two counts.
\<close>

theorem upsert_bulk_not_atomic:
  "(upsert_bulk cols pre st = (Inr s, st1) \<and> fst (upsert cols bad st1) = Inl e \<longrightarrow>
      upsert_bulk cols (pre @ bad # post) st = (Inl e, st1)) \<and>
   (upsert_bulk cols ds st = (Inr s', st') \<longrightarrow>
      total_count s' = length ds \<and> created s' + updated s' = length ds)"
proof (intro conjI impI)
  assume a: "upsert_bulk cols pre st = (Inr s, st1) \<and> fst (upsert cols bad st1) = Inl e"
  then obtain c u where l: "upsert_bulk_loop cols pre 0 0 st = (Inr (c, u), st1)"
    by (auto simp: upsert_bulk_def split: prod.splits sum.splits)
  from a have "upsert cols bad st1 = (Inl e, st1)"
    using upsert_failure_keeps_store [of cols bad st1 e "snd (upsert cols bad st1)"]
    by (cases "upsert cols bad st1") auto
  with l show "upsert_bulk cols (pre @ bad # post) st = (Inl e, st1)"
    by (simp add: upsert_bulk_def upsert_bulk_loop_append)
next
  assume b: "upsert_bulk cols ds st = (Inr s', st')"
  then obtain c u where l: "upsert_bulk_loop cols ds 0 0 st = (Inr (c, u), st')"
    and s: "s' = \<lparr>created = c, updated = u, total_count = length ds\<rparr>"
    by (auto simp: upsert_bulk_def split: prod.splits sum.splits)
  from upsert_bulk_loop_counts [OF l] s
  show "total_count s' = length ds" "created s' + updated s' = length ds" by auto
qed

theorem upsert_bulk_not_atomic_witness:
  "upsert_bulk cols0 [payload_abc_first] store_empty =
     (Inr \<lparr>created = 1, updated = 0, total_count = 1\<rparr>, store_abc) \<and>
   fst (upsert cols0 payload_no_symbol store_abc) = Inl KeyError \<and>
   upsert_bulk cols0 ([payload_abc_first] @ payload_no_symbol # [payload_abc_second]) store_empty =
     (Inl KeyError, store_abc) \<and>
   rows store_abc = [report_abc_first] \<and>
   upsert_bulk cols0 [payload_abc_first, payload_abc_second] store_empty =
     (Inr \<lparr>created = 1, updated = 1, total_count = 2\<rparr>, store_abc_second)"
proof -
  have b: "fst (upsert cols0 payload_no_symbol store_abc) = Inl KeyError"
    by (simp add: upsert_no_symbol)
  have c: "upsert_bulk cols0 [payload_abc_first, payload_abc_second] store_empty =
     (Inr \<lparr>created = 1, updated = 1, total_count = 2\<rparr>, store_abc_second)"
    by (simp add: upsert_bulk_def upsert_abc_first upsert_abc_second)
  from upsert_bulk_not_atomic
     [of cols0 "[payload_abc_first]" store_empty "\<lparr>created = 1, updated = 0, total_count = 1\<rparr>"
      store_abc payload_no_symbol KeyError "[payload_abc_second]"
      "[payload_abc_first, payload_abc_second]" "\<lparr>created = 1, updated = 1, total_count = 2\<rparr>"
      store_abc_second]
    upsert_bulk_abc_first b c
  show ?thesis by (simp add: store_abc_def)
qed

subsection \<open>Attribute assignment and rows\<close>

lemma map_of_assoc_set:
  "map_of (assoc_set k v b) k' = (if k' = k then Some v else map_of b k')"
  by (induction b) auto

lemma getattr_setattr:
  "getattr (setattr r k v) k' = (if k' = k then kept_value k v else getattr r k')"
  by (simp add: getattr_def setattr_def kept_value_def map_of_assoc_set)

lemma id_col_getattr: "id_col r = getattr r ''id''"
  by (simp add: getattr_def)

lemma symbol_getattr: "symbol r = getattr r ''symbol''"
  by (simp add: getattr_def)

lemma report_type_getattr: "report_type r = getattr r ''report_type''"
  by (simp add: getattr_def)

lemma report_year_getattr: "report_year r = getattr r ''report_year''"
  by (simp add: getattr_def)

lemma report_quarter_getattr: "report_quarter r = getattr r ''report_quarter''"
  by (simp add: getattr_def)

lemma hasattr_symbol: "hasattr cols ''symbol''"
  by (simp add: hasattr_def key_columns_def)

lemma hasattr_report_type: "hasattr cols ''report_type''"
  by (simp add: hasattr_def key_columns_def)

lemma hasattr_report_year: "hasattr cols ''report_year''"
  by (simp add: hasattr_def key_columns_def)

lemma hasattr_report_quarter: "hasattr cols ''report_quarter''"
  by (simp add: hasattr_def key_columns_def)

lemma kept_value_other: "k \<noteq> ''symbol'' \<Longrightarrow> kept_value k v = v"
  by (simp add: kept_value_def)

lemma kept_value_symbol: "kept_value ''symbol'' (VStr s) = VStr (lower s)"
  by (simp add: kept_value_def)

lemma upsert_loop_other:
  "k \<notin> fst ` set d \<Longrightarrow> getattr (upsert_loop cols d r) k = getattr r k"
  by (induction d arbitrary: r) (auto simp: getattr_setattr)

lemma upsert_loop_id: "id_col (upsert_loop cols d r) = id_col r"
proof (induction d arbitrary: r)
  case Nil
  then show ?case by simp
next
  case (Cons kv d)
  obtain k v where kv: "kv = (k, v)" by (cases kv)
  have "id_col (setattr r k v) = id_col r" if "k \<noteq> ''id''"
    using that by (simp add: id_col_getattr getattr_setattr)
  with Cons kv show ?case by simp
qed

lemma upsert_loop_assigned:
  "distinct (map fst d) \<Longrightarrow> (k, v) \<in> set d \<Longrightarrow> hasattr cols k \<Longrightarrow> k \<noteq> ''id'' \<Longrightarrow>
   getattr (upsert_loop cols d r) k = kept_value k v"
proof (induction d arbitrary: r)
  case Nil
  then show ?case by simp
next
  case (Cons kv d)
  obtain k' v' where kv: "kv = (k', v')" by (cases kv)
  show ?case
  proof (cases "(k, v) = (k', v')")
    case True
    with Cons.prems kv have "k \<notin> fst ` set d" by auto
    with True kv Cons.prems show ?thesis
      by (simp add: upsert_loop_other getattr_setattr)
  next
    case False
    with Cons.prems kv have "(k, v) \<in> set d" by auto
    with Cons kv show ?thesis by simp
  qed
qed

lemma update_loop_other:
  "k \<notin> fst ` set d \<Longrightarrow> getattr (update_loop cols d r) k = getattr r k"
  by (induction d arbitrary: r) (auto simp: getattr_setattr)

lemma update_loop_assigned:
  "distinct (map fst d) \<Longrightarrow> (k, v) \<in> set d \<Longrightarrow> hasattr cols k \<Longrightarrow>
   getattr (update_loop cols d r) k = kept_value k v"
proof (induction d arbitrary: r)
  case Nil
  then show ?case by simp
next
  case (Cons kv d)
  obtain k' v' where kv: "kv = (k', v')" by (cases kv)
  show ?case
  proof (cases "(k, v) = (k', v')")
    case True
    with Cons.prems kv have "k \<notin> fst ` set d" by auto
    with True kv Cons.prems show ?thesis
      by (simp add: update_loop_other getattr_setattr)
  next
    case False
    with Cons.prems kv have "(k, v) \<in> set d" by auto
    with Cons kv show ?thesis by simp
  qed
qed

lemma init_loop_other:
  "init_loop cols d r0 = Inr r \<Longrightarrow> k \<notin> fst ` set d \<Longrightarrow> getattr r k = getattr r0 k"
proof (induction d arbitrary: r0)
  case Nil
  then show ?case by simp
next
  case (Cons kv d)
  obtain k' v' where kv: "kv = (k', v')" by (cases kv)
  with Cons.prems have h: "hasattr cols k'" and l: "init_loop cols d (setattr r0 k' v') = Inr r"
    by (auto split: if_splits)
  from Cons.prems kv have "k \<noteq> k'" "k \<notin> fst ` set d" by auto
  with Cons.IH [OF l] show ?case by (simp add: getattr_setattr)
qed

lemma init_loop_assigned:
  "init_loop cols d r0 = Inr r \<Longrightarrow> distinct (map fst d) \<Longrightarrow> (k, v) \<in> set d \<Longrightarrow>
   getattr r k = kept_value k v"
proof (induction d arbitrary: r0)
  case Nil
  then show ?case by simp
next
  case (Cons kv d)
  obtain k' v' where kv: "kv = (k', v')" by (cases kv)
  with Cons.prems have l: "init_loop cols d (setattr r0 k' v') = Inr r"
    by (auto split: if_splits)
  show ?case
  proof (cases "(k, v) = (k', v')")
    case True
    with Cons.prems kv have "k \<notin> fst ` set d" by auto
    from init_loop_other [OF l this] True show ?thesis by (simp add: getattr_setattr)
  next
    case False
    with Cons.prems kv have "(k, v) \<in> set d" by auto
    with Cons.IH [OF l] Cons.prems show ?thesis by simp
  qed
qed

lemma init_symbol:
  assumes "FinancialReport_init cols d = Inr n" and "distinct (map fst d)"
    and "map_of d ''symbol'' = Some (VStr s)"
  shows "symbol n = VStr (lower s)"
proof -
  from assms(1) have l: "init_loop cols d blank_report = Inr n"
    by (simp add: FinancialReport_init_def)
  from assms(3) have "(''symbol'', VStr s) \<in> set d" by (rule map_of_SomeD)
  from init_loop_assigned [OF l assms(2) this] show ?thesis
    by (simp add: symbol_getattr kept_value_symbol)
qed

lemma insert_row_result:
  assumes "insert_row n st = Inr (r, st')"
  shows "rows st' = rows st @ [r] \<and> collation st' = collation st \<and>
         id_col r \<notin> set (map id_col (rows st)) \<and>
         (\<exists>i. id_col r = VInt i) \<and> symbol r = symbol n \<and> report_type r = report_type n \<and>
         report_year r = report_year n \<and> report_quarter r = report_quarter n \<and> body r = body n"
proof (cases "id_col n")
  case VNone
  let ?r = "n\<lparr>id_col := VInt (next_id st)\<rparr>"
  from VNone assms have f: "VInt (next_id st) \<notin> set (map id_col (rows st))"
    by (simp add: insert_row_def Let_def split: if_splits)
  with VNone assms have "Inr (?r, st\<lparr>rows := rows st @ [?r], next_id := next_id st + 1\<rparr>)
      = (Inr (r, st') :: error + (FinancialReport \<times> store))"
    by (auto simp: insert_row_def Let_def)
  then have "r = ?r" and "st' = st\<lparr>rows := rows st @ [?r], next_id := next_id st + 1\<rparr>"
    by auto
  with f show ?thesis by simp
next
  case (VInt i)
  from VInt assms have f: "VInt i \<notin> set (map id_col (rows st))"
    by (simp add: insert_row_def split: if_splits)
  with VInt assms have "Inr (n, st\<lparr>rows := rows st @ [n], next_id := max (next_id st) (i + 1)\<rparr>)
      = (Inr (r, st') :: error + (FinancialReport \<times> store))"
    by (auto simp: insert_row_def)
  then have "r = n" and "st' = st\<lparr>rows := rows st @ [n], next_id := max (next_id st) (i + 1)\<rparr>"
    by auto
  with f VInt show ?thesis by simp
next
  case (VStr x)
  with assms show ?thesis by (simp add: insert_row_def)
qed

lemma update_row_result:
  assumes "update_row old r st = Inr st'"
  shows "id_col r = old \<and> collation st' = collation st \<and>
         rows st' = map (\<lambda>x. if id_col x = old then r else x) (rows st)"
  using assms by (auto simp: update_row_def split: if_splits)

lemma update_row_ids:
  assumes "update_row old r st = Inr st'"
  shows "map id_col (rows st') = map id_col (rows st)"
proof -
  from update_row_result [OF assms]
  have i: "id_col r = old" and "rows st' = map (\<lambda>x. if id_col x = old then r else x) (rows st)"
    by simp_all
  then show ?thesis by (simp add: comp_def cong: map_cong)
qed

lemma update_row_member:
  assumes "update_row old r st = Inr st'" and "x \<in> set (rows st)" and "id_col x = old"
  shows "r \<in> set (rows st')"
proof -
  from update_row_result [OF assms(1)]
  have "rows st' = map (\<lambda>x. if id_col x = old then r else x) (rows st)" by simp
  moreover from assms(2,3) have "r \<in> (\<lambda>x. if id_col x = old then r else x) ` set (rows st)"
    by (auto simp: image_iff intro!: bexI [of _ x])
  ultimately show ?thesis by simp
qed

subsection \<open>The surrogate id\<close>

lemma get_by_id_Some:
  assumes "get_by_id i st = Inr (Some r)"
  shows "r \<in> set (rows st) \<and> id_col r = VInt i"
proof -
  from assms have "filter (\<lambda>r. id_col r = VInt i) (rows st) = [r]"
    by (simp add: get_by_id_def scalar_one_or_none_Some)
  from filter_singleton [OF this] show ?thesis by simp
qed

lemma update_keeps_ids:
  assumes "update cols i d st = (res, st')"
  shows "map id_col (rows st') = map id_col (rows st)"
proof (cases "get_by_id i st")
  case (Inl e)
  with assms show ?thesis by (simp add: update_def)
next
  case (Inr found)
  show ?thesis
  proof (cases found)
    case None
    with Inr assms show ?thesis by (simp add: update_def)
  next
    case (Some report)
    show ?thesis
    proof (cases "update_row (id_col report) (update_loop cols d report) st")
      case (Inl e)
      with Inr Some assms show ?thesis by (simp add: update_def Let_def)
    next
      case (Inr st2)
      with \<open>get_by_id i st = Inr found\<close> Some assms have "st' = st2"
        by (simp add: update_def Let_def)
      with update_row_ids [OF Inr] show ?thesis by simp
    qed
  qed
qed

lemma update_returns_same_id:
  assumes "update cols i d st = (Inr (Some r), st')"
  shows "id_col r = VInt i \<and> r \<in> set (rows st')"
proof -
  from assms obtain report where g: "get_by_id i st = Inr (Some report)"
    and r: "r = update_loop cols d report"
    and u: "update_row (id_col report) r st = Inr st'"
    by (auto simp: update_def Let_def split: sum.splits option.splits)
  from get_by_id_Some [OF g] have m: "report \<in> set (rows st)" and i: "id_col report = VInt i"
    by simp_all
  from update_row_result [OF u] i have "id_col r = VInt i" by simp
  moreover from update_row_member [OF u m] have "r \<in> set (rows st')" by simp
  ultimately show ?thesis by simp
qed

lemma upsert_update_keeps_ids:
  assumes "upsert cols d st = (Inr (r, False), st')"
  shows "map id_col (rows st') = map id_col (rows st) \<and> id_col r \<in> set (map id_col (rows st))"
proof -
  from assms obtain s t y q existing where
    fd: "find_duplicate s t y q st = Inr (Some existing)"
    and r: "r = upsert_loop cols d existing"
    and u: "update_row (id_col existing) r st = Inr st'"
    by (auto simp: upsert_def Let_def split: option.splits val.splits sum.splits prod.splits)
  from r have i: "id_col r = id_col existing" by (simp add: upsert_loop_id)
  from find_duplicate_Some [OF fd] have "existing \<in> set (rows st)" by simp
  with i update_row_ids [OF u] show ?thesis by auto
qed

text \<open>
  Claim C6: \<open>update\<close>, whatever its mapping and whether it returns or raises, leaves the
  ids of the stored records as they were, and the record it returns has the id it was
  looked up with; the update branch of \<open>upsert\<close> leaves the ids as they were too. The loop
  of \<open>upsert\<close> skips the key \<open>id\<close>; the loop of \<open>update\<close> assigns it to the object, and the
  store then refuses the changed id, so that nothing is stored.
\<close>

theorem id_immutable:
  "(update cols i d st = (res, st') \<longrightarrow> map id_col (rows st') = map id_col (rows st)) \<and>
   (update cols i d st = (Inr (Some r), st') \<longrightarrow> id_col r = VInt i \<and> r \<in> set (rows st')) \<and>
   (upsert cols p st = (Inr (r2, False), st2) \<longrightarrow>
      map id_col (rows st2) = map id_col (rows st) \<and> id_col r2 \<in> set (map id_col (rows st)))"
  using update_keeps_ids [of cols i d st res st'] update_returns_same_id [of cols i d st r st']
    upsert_update_keeps_ids [of cols p st r2 st2]
  by blast

lemmas write_eval = add_def add_bulk_def update_def get_by_id_def store_eval

lemma update_id_rejected:
  "update cols0 1 [(''id'', VInt 2)] store_abc = (Inl DBAPIError, store_abc)"
  by (simp add: write_eval store_abc_def report_abc_first_def)

lemma update_title:
  "update cols0 1 [(''title'', VStr ''second'')] store_abc =
     (Inr (Some report_abc_second), store_abc_second)"
  by (simp add: write_eval store_abc_def store_abc_second_def report_abc_first_def
      report_abc_second_def)

lemma upsert_with_id:
  "upsert cols0 (payload_ABC_second @ [(''id'', VInt 7)]) store_abc =
     (Inr (report_abc_second, False), store_abc_second)"
  by (simp add: store_eval payload_ABC_second_def report_abc_first_def report_abc_second_def
      store_abc_def store_abc_second_def lower_ABC lower_abc lower_annual)

theorem id_immutable_witness:
  "update cols0 1 [(''id'', VInt 2)] store_abc = (Inl DBAPIError, store_abc) \<and>
   map id_col (rows store_abc) = [VInt 1] \<and>
   update cols0 1 [(''title'', VStr ''second'')] store_abc =
     (Inr (Some report_abc_second), store_abc_second) \<and>
   id_col report_abc_second = VInt 1 \<and>
   upsert cols0 (payload_ABC_second @ [(''id'', VInt 7)]) store_abc =
     (Inr (report_abc_second, False), store_abc_second) \<and>
   map id_col (rows store_abc_second) = [VInt 1]"
proof -
  have a: "map id_col (rows store_abc) = [VInt 1]"
    by (simp add: store_abc_def report_abc_first_def)
  from id_immutable [where cols = cols0 and i = 1 and d = "[(''title'', VStr ''second'')]"
      and st = store_abc and res = "Inr (Some report_abc_second)" and st' = store_abc_second
      and r = report_abc_second and p = "payload_ABC_second @ [(''id'', VInt 7)]"
      and ?r2.0 = report_abc_second and ?st2.0 = store_abc_second]
    update_title upsert_with_id update_id_rejected a
  show ?thesis by simp
qed

subsection \<open>Idempotent upsert\<close>

lemma blank_report_quarter: "getattr blank_report ''report_quarter'' = VNone"
  by (simp add: getattr_def blank_report_def)

lemma carries_key_members:
  assumes "carries_key p s t y q"
  shows "distinct (map fst p)" and "(''symbol'', VStr s) \<in> set p"
    and "(''report_type'', t) \<in> set p" and "(''report_year'', y) \<in> set p"
  using assms by (auto simp: carries_key_def dest: map_of_SomeD)

lemma init_key:
  assumes c: "carries_key p s t y q" and i: "FinancialReport_init cols p = Inr n"
  shows "has_key ck s t y q n"
proof -
  note m = carries_key_members [OF c]
  from i have l: "init_loop cols p blank_report = Inr n" by (simp add: FinancialReport_init_def)
  have a1: "symbol n = VStr (lower s)"
    using init_loop_assigned [OF l m(1) m(2)] by (simp add: symbol_getattr kept_value_symbol)
  have a2: "report_type n = t"
    using init_loop_assigned [OF l m(1) m(3)] by (simp add: report_type_getattr kept_value_other)
  have a3: "report_year n = y"
    using init_loop_assigned [OF l m(1) m(4)] by (simp add: report_year_getattr kept_value_other)
  have a4: "report_quarter n = q"
  proof (cases "map_of p ''report_quarter''")
    case None
    then have "''report_quarter'' \<notin> fst ` set p" by (simp add: map_of_eq_None_iff)
    from init_loop_other [OF l this] have "report_quarter n = VNone"
      by (simp add: report_quarter_getattr blank_report_quarter)
    moreover from None c have "q = VNone" by (simp add: carries_key_def)
    ultimately show ?thesis by simp
  next
    case (Some v)
    then have "(''report_quarter'', v) \<in> set p" by (rule map_of_SomeD)
    from init_loop_assigned [OF l m(1) this] have "report_quarter n = v"
      by (simp add: report_quarter_getattr kept_value_other)
    moreover from Some c have "q = v" by (simp add: carries_key_def)
    ultimately show ?thesis by simp
  qed
  from a1 a2 a3 a4 show ?thesis by (simp add: has_key_def sql_eq_refl)
qed

lemma upsert_loop_key:
  assumes c: "carries_key p s t y q" and k: "report_quarter r = q"
  shows "has_key ck s t y q (upsert_loop cols p r)"
proof -
  let ?r = "upsert_loop cols p r"
  note m = carries_key_members [OF c]
  have a1: "symbol ?r = VStr (lower s)"
    using upsert_loop_assigned [OF m(1) m(2) hasattr_symbol, of cols r]
    by (simp add: symbol_getattr kept_value_symbol)
  have a2: "report_type ?r = t"
    using upsert_loop_assigned [OF m(1) m(3) hasattr_report_type, of cols r]
    by (simp add: report_type_getattr kept_value_other)
  have a3: "report_year ?r = y"
    using upsert_loop_assigned [OF m(1) m(4) hasattr_report_year, of cols r]
    by (simp add: report_year_getattr kept_value_other)
  have a4: "report_quarter ?r = q"
  proof (cases "map_of p ''report_quarter''")
    case None
    then have "''report_quarter'' \<notin> fst ` set p" by (simp add: map_of_eq_None_iff)
    from upsert_loop_other [OF this, of cols r] have "report_quarter ?r = report_quarter r"
      by (simp add: report_quarter_getattr)
    with k show ?thesis by simp
  next
    case (Some v)
    then have "(''report_quarter'', v) \<in> set p" by (rule map_of_SomeD)
    from upsert_loop_assigned [OF m(1) this hasattr_report_quarter, of cols r]
    have "report_quarter ?r = v"
      by (simp add: report_quarter_getattr kept_value_other)
    moreover from Some c have "q = v" by (simp add: carries_key_def)
    ultimately show ?thesis by simp
  qed
  from a1 a2 a3 a4 show ?thesis by (simp add: has_key_def sql_eq_refl)
qed

text \<open>
  Claim C2: for two payloads that carry the same business key and a store without that
  key, a first \<open>upsert\<close> that succeeds creates the record, and the second \<open>upsert\<close> returns
  \<open>created = False\<close>, leaves that record as the only one with the key, with the id it had,
  and gives it what the entity keeps of every attribute of the second payload other
  than \<open>id\<close>.
\<close>

theorem upsert_idempotent:
  assumes c1: "carries_key p1 s t y q" and c2: "carries_key p2 s t y q"
    and free: "\<forall>r \<in> set (rows st). \<not> has_key (collation st) s t y q r"
    and first: "upsert cols p1 st = (Inr (r1, created1), st1)"
  shows "created1 \<and>
         (\<exists>r2 st2. upsert cols p2 st1 = (Inr (r2, False), st2) \<and>
            filter (has_key (collation st2) s t y q) (rows st2) = [r2] \<and>
            id_col r2 = id_col r1 \<and>
            (\<forall>(k, v) \<in> set p2. hasattr cols k \<and> k \<noteq> ''id'' \<longrightarrow> getattr r2 k = kept_value k v))"
proof -
  let ?ck = "collation st"
  from free have nil: "filter (has_key ?ck s t y q) (rows st) = []"
    by (simp add: filter_empty_conv)
  then have fd: "find_duplicate s t y q st = Inr None"
    by (simp add: find_duplicate_filter)
  from c1 have m1: "map_of p1 ''symbol'' = Some (VStr s)" "map_of p1 ''report_type'' = Some t"
    "map_of p1 ''report_year'' = Some y"
    "(case map_of p1 ''report_quarter'' of None \<Rightarrow> VNone | Some v \<Rightarrow> v) = q"
    by (simp_all add: carries_key_def)
  from first m1 fd obtain n1 where i1: "FinancialReport_init cols p1 = Inr n1"
    and ins: "insert_row n1 st = Inr (r1, st1)" and cr: "created1"
    by (auto simp: upsert_def Let_def split: sum.splits prod.splits)
  note ir = insert_row_result [OF ins]
  from ir have ck1: "collation st1 = ?ck" by simp
  from init_key [OF c1 i1, of ?ck] ir have k1: "has_key ?ck s t y q r1"
    by (simp add: has_key_def)
  from ir nil k1 have "filter (has_key ?ck s t y q) (rows st1) = [r1]" by simp
  then have fd1: "find_duplicate s t y q st1 = Inr (Some r1)"
    by (simp add: find_duplicate_filter ck1)
  let ?r2 = "upsert_loop cols p2 r1"
  let ?st2 = "st1\<lparr>rows := map (\<lambda>x. if id_col x = id_col r1 then ?r2 else x) (rows st1)\<rparr>"
  have ur: "update_row (id_col r1) ?r2 st1 = Inr ?st2"
    by (simp add: update_row_def upsert_loop_id)
  from c2 have m2: "map_of p2 ''symbol'' = Some (VStr s)" "map_of p2 ''report_type'' = Some t"
    "map_of p2 ''report_year'' = Some y"
    "(case map_of p2 ''report_quarter'' of None \<Rightarrow> VNone | Some v \<Rightarrow> v) = q"
    by (simp_all add: carries_key_def)
  from m2 fd1 ur have u2: "upsert cols p2 st1 = (Inr (?r2, False), ?st2)"
    by (simp add: upsert_def Let_def)
  from ir have "id_col r1 \<notin> id_col ` set (rows st)" by simp
  then have "\<forall>x \<in> set (rows st). id_col x \<noteq> id_col r1"
    by (auto simp: image_iff)
  then have "map (\<lambda>x. if id_col x = id_col r1 then ?r2 else x) (rows st) = rows st"
    by (intro map_idI) simp
  with ir have rows2: "rows ?st2 = rows st @ [?r2]" by simp
  from k1 have "report_quarter r1 = q" by (simp add: has_key_def)
  from upsert_loop_key [OF c2 this, of ?ck cols] have k2: "has_key ?ck s t y q ?r2" .
  from rows2 nil k2 have one: "filter (has_key (collation ?st2) s t y q) (rows ?st2) = [?r2]"
    by (simp add: ck1)
  from c2 have d2: "distinct (map fst p2)" by (simp add: carries_key_def)
  have content: "\<forall>(k, v) \<in> set p2. hasattr cols k \<and> k \<noteq> ''id'' \<longrightarrow>
      getattr ?r2 k = kept_value k v"
    using upsert_loop_assigned [OF d2] by auto
  show ?thesis
  proof (intro conjI exI)
    show created1 by (rule cr)
    show "upsert cols p2 st1 = (Inr (?r2, False), ?st2)" by (rule u2)
    show "filter (has_key (collation ?st2) s t y q) (rows ?st2) = [?r2]" by (rule one)
    show "id_col ?r2 = id_col r1" by (rule upsert_loop_id)
    show "\<forall>(k, v) \<in> set p2. hasattr cols k \<and> k \<noteq> ''id'' \<longrightarrow> getattr ?r2 k = kept_value k v"
      by (rule content)
  qed
qed

theorem upsert_idempotent_witness:
  "carries_key payload_ABC_first ''ABC'' (VStr ''annual'') (VInt 2023) VNone \<and>
   carries_key payload_ABC_second ''ABC'' (VStr ''annual'') (VInt 2023) VNone \<and>
   upsert cols0 payload_ABC_first store_empty = (Inr (report_abc_first, True), store_abc) \<and>
   upsert cols0 payload_ABC_second store_abc = (Inr (report_abc_second, False), store_abc_second) \<and>
   rows store_abc_second = [report_abc_second] \<and>
   getattr report_abc_second ''title'' = VStr ''second''"
proof -
  have c1: "carries_key payload_ABC_first ''ABC'' (VStr ''annual'') (VInt 2023) VNone"
    by (simp add: carries_key_def payload_ABC_first_def)
  have c2: "carries_key payload_ABC_second ''ABC'' (VStr ''annual'') (VInt 2023) VNone"
    by (simp add: carries_key_def payload_ABC_second_def)
  have f: "\<forall>r \<in> set (rows store_empty).
             \<not> has_key (collation store_empty) ''ABC'' (VStr ''annual'') (VInt 2023) VNone r"
    by (simp add: store_empty_def)
  have t: "(''title'', VStr ''second'') \<in> set payload_ABC_second" "hasattr cols0 ''title''"
    by (simp_all add: payload_ABC_second_def hasattr_def cols0_def)
  have r: "rows store_abc_second = [report_abc_second]"
    by (simp add: store_abc_second_def)
  from upsert_idempotent [OF c1 c2 f upsert_ABC_first] t
  have "getattr report_abc_second ''title'' = kept_value ''title'' (VStr ''second'')"
    by (auto simp: upsert_ABC_second)
  with c1 c2 r upsert_ABC_first upsert_ABC_second show ?thesis
    by (simp add: kept_value_other)
qed

subsection \<open>Symbol normalization\<close>

lemma add_symbol:
  assumes "add cols d st = (Inr r, st')" and "distinct (map fst d)"
    and "map_of d ''symbol'' = Some (VStr s)"
  shows "r \<in> set (rows st') \<and> symbol r = VStr (lower s)"
proof -
  from assms(1) obtain n where i: "FinancialReport_init cols d = Inr n"
    and ins: "insert_row n st = Inr (r, st')"
    by (auto simp: add_def split: sum.splits prod.splits)
  from insert_row_result [OF ins] init_symbol [OF i assms(2,3)] show ?thesis by simp
qed

lemma init_all_nth:
  "init_all cols ds = Inr ns \<Longrightarrow>
   length ns = length ds \<and> (\<forall>i < length ds. FinancialReport_init cols (ds ! i) = Inr (ns ! i))"
proof (induction ds arbitrary: ns)
  case Nil
  then show ?case by simp
next
  case (Cons d ds)
  from Cons.prems obtain n ns' where n: "FinancialReport_init cols d = Inr n"
    and r: "init_all cols ds = Inr ns'" and e: "ns = n # ns'"
    by (auto split: sum.splits)
  from Cons.IH [OF r] n e show ?case
    by (auto simp: nth_Cons split: nat.splits)
qed

lemma bulk_save_objects_nth:
  "bulk_save_objects ns st = Inr (rs, st') \<Longrightarrow>
   length rs = length ns \<and> rows st' = rows st @ rs \<and>
   (\<forall>i < length ns. symbol (rs ! i) = symbol (ns ! i))"
proof (induction ns arbitrary: st rs)
  case Nil
  then show ?case by simp
next
  case (Cons n ns)
  from Cons.prems obtain r st1 rs' where ins: "insert_row n st = Inr (r, st1)"
    and rest: "bulk_save_objects ns st1 = Inr (rs', st')" and e: "rs = r # rs'"
    by (auto split: sum.splits prod.splits)
  from insert_row_result [OF ins] have a: "rows st1 = rows st @ [r]" "symbol r = symbol n"
    by simp_all
  from Cons.IH [OF rest] a e show ?case
    by (auto simp: nth_Cons split: nat.splits)
qed

lemma add_bulk_symbol:
  assumes "add_bulk cols (pre @ d # post) st = (Inr rs, st')" and "distinct (map fst d)"
    and "map_of d ''symbol'' = Some (VStr s)"
  shows "length pre < length rs \<and> rs ! length pre \<in> set (rows st') \<and>
         symbol (rs ! length pre) = VStr (lower s)"
proof -
  from assms(1) obtain ns where i: "init_all cols (pre @ d # post) = Inr ns"
    and b: "bulk_save_objects ns st = Inr (rs, st')"
    by (auto simp: add_bulk_def split: sum.splits prod.splits)
  from init_all_nth [OF i] have ln: "length ns = length (pre @ d # post)"
    and al: "\<forall>i < length (pre @ d # post).
               FinancialReport_init cols ((pre @ d # post) ! i) = Inr (ns ! i)"
    by blast+
  have "length pre < length (pre @ d # post)" by simp
  with al have "FinancialReport_init cols ((pre @ d # post) ! length pre) = Inr (ns ! length pre)"
    by blast
  then have n: "FinancialReport_init cols d = Inr (ns ! length pre)" by simp
  from bulk_save_objects_nth [OF b] have lr: "length rs = length ns"
    and rw: "rows st' = rows st @ rs"
    and sa: "\<forall>i < length ns. symbol (rs ! i) = symbol (ns ! i)"
    by blast+
  from ln have "length pre < length ns" by simp
  with sa have sy: "symbol (rs ! length pre) = symbol (ns ! length pre)" by blast
  from lr ln have lt: "length pre < length rs" by simp
  then have "rs ! length pre \<in> set rs" by simp
  with rw lt sy init_symbol [OF n assms(2,3)] show ?thesis by simp
qed

lemma update_symbol:
  assumes "update cols i d st = (Inr (Some r), st')" and "distinct (map fst d)"
    and "map_of d ''symbol'' = Some (VStr s)"
  shows "r \<in> set (rows st') \<and> symbol r = VStr (lower s)"
proof -
  from assms(1) obtain report where r: "r = update_loop cols d report"
    by (auto simp: update_def Let_def split: sum.splits option.splits)
  from assms(3) have "(''symbol'', VStr s) \<in> set d" by (rule map_of_SomeD)
  from update_loop_assigned [OF assms(2) this hasattr_symbol, of cols report] r
  have "symbol r = VStr (lower s)"
    by (simp add: symbol_getattr kept_value_symbol)
  with update_returns_same_id [OF assms(1)] show ?thesis by simp
qed

lemma upsert_symbol:
  assumes u: "upsert cols d st = (Inr (r, c), st')" and "distinct (map fst d)"
    and s: "map_of d ''symbol'' = Some (VStr s)"
  shows "r \<in> set (rows st') \<and> symbol r = VStr (lower s)"
proof -
  from s have mem: "(''symbol'', VStr s) \<in> set d" by (rule map_of_SomeD)
  from u s obtain t y q where
    "(\<exists>existing. find_duplicate s t y q st = Inr (Some existing) \<and>
        r = upsert_loop cols d existing \<and> update_row (id_col existing) r st = Inr st') \<or>
     (\<exists>n. FinancialReport_init cols d = Inr n \<and> insert_row n st = Inr (r, st'))"
    by (auto simp: upsert_def Let_def split: option.splits sum.splits prod.splits)
  then show ?thesis
  proof (elim disjE exE conjE)
    fix existing
    assume fd: "find_duplicate s t y q st = Inr (Some existing)"
      and r: "r = upsert_loop cols d existing"
      and ur: "update_row (id_col existing) r st = Inr st'"
    from find_duplicate_Some [OF fd] have "existing \<in> set (rows st)" by simp
    from update_row_member [OF ur this] have "r \<in> set (rows st')" by simp
    moreover from upsert_loop_assigned [OF assms(2) mem hasattr_symbol, of cols existing] r
    have "symbol r = VStr (lower s)"
      by (simp add: symbol_getattr kept_value_symbol)
    ultimately show ?thesis by simp
  next
    fix n
    assume i: "FinancialReport_init cols d = Inr n" and ins: "insert_row n st = Inr (r, st')"
    from insert_row_result [OF ins] init_symbol [OF i assms(2) s] show ?thesis by simp
  qed
qed

lemma lookups_lower:
  assumes "lower s' = lower s"
  shows "get_by_symbol s' st = get_by_symbol s st"
    and "find_duplicate s' t y q st = find_duplicate s t y q st"
    and "delete_by_symbol s' st = delete_by_symbol s st"
    and "count_by_symbol s' st = count_by_symbol s st"
  using assms
  by (simp_all add: get_by_symbol_def find_duplicate_def delete_by_symbol_def count_by_symbol_def)

lemma get_by_symbol_lower: "get_by_symbol (lower s) st = get_by_symbol s st"
  by (simp add: get_by_symbol_def lower_idem)

lemma find_duplicate_lower: "find_duplicate (lower s) t y q st = find_duplicate s t y q st"
  by (simp add: find_duplicate_def lower_idem)

lemma lookups_compare:
  shows "\<forall>x \<in> set (get_by_symbol s st). sql_eq (collation st) (symbol x) (VStr (lower s))"
    and "\<forall>x \<in> set (rows (snd (delete_by_symbol s st))).
           \<not> sql_eq (collation st) (symbol x) (VStr (lower s))"
    and "fst (delete_by_symbol s st) = count_by_symbol s st"
    and "count_by_symbol s st = length (get_by_symbol s st)"
  by (simp_all add: get_by_symbol_def delete_by_symbol_def count_by_symbol_def)

text \<open>
  Claim C1: for a payload with the symbol \<open>s\<close>, the record that \<open>add\<close>, \<open>add_bulk\<close>, \<open>update\<close>
  or \<open>upsert\<close> stores carries the lowercase form of \<open>s\<close>, and a lookup under any spelling
  of the symbol finds the record that \<open>add\<close> stored. The four lookups compare the stored
  symbol with the lowercase form of their argument: two arguments that differ only in
  case give the same result, the records returned compare equal to the lowercase form,
  the records deleted are those that do, and the count is their number.
\<close>

theorem symbol_normalized_on_every_path:
  assumes d: "distinct (map fst d)" and s: "map_of d ''symbol'' = Some (VStr s)"
    and c: "lower s' = lower s"
  shows "(add cols d st = (Inr r, st') \<longrightarrow>
            r \<in> set (rows st') \<and> symbol r = VStr (lower s) \<and> r \<in> set (get_by_symbol s' st')) \<and>
         (add_bulk cols (pre @ d # post) st = (Inr rs, st') \<longrightarrow>
            length pre < length rs \<and> rs ! length pre \<in> set (rows st') \<and>
            symbol (rs ! length pre) = VStr (lower s)) \<and>
         (update cols i d st = (Inr (Some r), st') \<longrightarrow>
            r \<in> set (rows st') \<and> symbol r = VStr (lower s)) \<and>
         (upsert cols d st = (Inr (r, cr), st') \<longrightarrow>
            r \<in> set (rows st') \<and> symbol r = VStr (lower s)) \<and>
         get_by_symbol s' st = get_by_symbol s st \<and>
         find_duplicate s' t y q st = find_duplicate s t y q st \<and>
         delete_by_symbol s' st = delete_by_symbol s st \<and>
         count_by_symbol s' st = count_by_symbol s st \<and>
         (\<forall>x \<in> set (get_by_symbol s st). sql_eq (collation st) (symbol x) (VStr (lower s))) \<and>
         (find_duplicate s t y q st = Inr (Some x) \<longrightarrow>
            sql_eq (collation st) (symbol x) (VStr (lower s))) \<and>
         (\<forall>x \<in> set (rows (snd (delete_by_symbol s st))).
            \<not> sql_eq (collation st) (symbol x) (VStr (lower s))) \<and>
         fst (delete_by_symbol s st) = count_by_symbol s st \<and>
         count_by_symbol s st = length (get_by_symbol s st)"
proof -
  have w1: "r \<in> set (rows st') \<and> symbol r = VStr (lower s) \<and> r \<in> set (get_by_symbol s' st')"
    if a: "add cols d st = (Inr r, st')"
  proof -
    from add_symbol [OF a d s] have m: "r \<in> set (rows st')" and y: "symbol r = VStr (lower s)"
      by simp_all
    from m y c have "r \<in> set (get_by_symbol s' st')"
      by (simp add: get_by_symbol_def sql_eq_refl)
    with m y show ?thesis by simp
  qed
  have w2: "length pre < length rs \<and> rs ! length pre \<in> set (rows st') \<and>
            symbol (rs ! length pre) = VStr (lower s)"
    if "add_bulk cols (pre @ d # post) st = (Inr rs, st')"
    using that d s by (rule add_bulk_symbol)
  have w3: "r \<in> set (rows st') \<and> symbol r = VStr (lower s)"
    if "update cols i d st = (Inr (Some r), st')"
    using that d s by (rule update_symbol)
  have w4: "r \<in> set (rows st') \<and> symbol r = VStr (lower s)"
    if "upsert cols d st = (Inr (r, cr), st')"
    using that d s by (rule upsert_symbol)
  have r5: "sql_eq (collation st) (symbol x) (VStr (lower s))"
    if "find_duplicate s t y q st = Inr (Some x)"
    using find_duplicate_Some [OF that] by simp
  have l1: "get_by_symbol s' st = get_by_symbol s st" using c by (rule lookups_lower(1))
  have l2: "find_duplicate s' t y q st = find_duplicate s t y q st"
    using c by (rule lookups_lower(2))
  have l3: "delete_by_symbol s' st = delete_by_symbol s st" using c by (rule lookups_lower(3))
  have l4: "count_by_symbol s' st = count_by_symbol s st" using c by (rule lookups_lower(4))
  have l5: "\<forall>x \<in> set (get_by_symbol s st). sql_eq (collation st) (symbol x) (VStr (lower s))"
    by (rule lookups_compare(1))
  have l6: "\<forall>x \<in> set (rows (snd (delete_by_symbol s st))).
            \<not> sql_eq (collation st) (symbol x) (VStr (lower s))"
    by (rule lookups_compare(2))
  have l7: "fst (delete_by_symbol s st) = count_by_symbol s st" by (rule lookups_compare(3))
  have l8: "count_by_symbol s st = length (get_by_symbol s st)" by (rule lookups_compare(4))
  from w1 w2 w3 w4 r5 l1 l2 l3 l4 l5 l6 l7 l8
  show ?thesis by blast
qed

theorem symbol_normalized_on_every_path_witness:
  "distinct (map fst payload_ABC_first) \<and>
   map_of payload_ABC_first ''symbol'' = Some (VStr ''ABC'') \<and>
   lower ''abc'' = lower ''ABC'' \<and>
   add cols0 payload_ABC_first store_empty = (Inr report_abc_first, store_abc) \<and>
   add_bulk cols0 ([] @ payload_ABC_first # []) store_empty = (Inr [report_abc_first], store_abc) \<and>
   update cols0 1 payload_ABC_first store_abc_second = (Inr (Some report_abc_first), store_abc) \<and>
   upsert cols0 payload_ABC_first store_empty = (Inr (report_abc_first, True), store_abc) \<and>
   symbol report_abc_first = VStr (lower ''ABC'') \<and>
   report_abc_first \<in> set (get_by_symbol ''abc'' store_abc) \<and>
   get_by_symbol ''abc'' store_abc = get_by_symbol ''ABC'' store_abc \<and>
   get_by_symbol ''ABC'' store_abc = [report_abc_first] \<and>
   find_duplicate ''ABC'' (VStr ''annual'') (VInt 2023) VNone store_abc =
     Inr (Some report_abc_first) \<and>
   count_by_symbol ''ABC'' store_abc = 1 \<and>
   fst (delete_by_symbol ''ABC'' store_abc) = 1 \<and>
   rows (snd (delete_by_symbol ''ABC'' store_abc)) = []"
proof -
  have h1: "distinct (map fst payload_ABC_first)"
    by (simp add: payload_ABC_first_def)
  have h2: "map_of payload_ABC_first ''symbol'' = Some (VStr ''ABC'')"
    by (simp add: payload_ABC_first_def)
  have h3: "lower ''abc'' = lower ''ABC''"
    by (simp add: lower_abc lower_ABC)
  have a: "add cols0 payload_ABC_first store_empty = (Inr report_abc_first, store_abc)"
    by (simp add: write_eval payload_ABC_first_def store_empty_def report_abc_first_def
        store_abc_def lower_ABC)
  have b: "add_bulk cols0 ([] @ payload_ABC_first # []) store_empty =
             (Inr [report_abc_first], store_abc)"
    by (simp add: write_eval payload_ABC_first_def store_empty_def report_abc_first_def
        store_abc_def lower_ABC)
  have u: "update cols0 1 payload_ABC_first store_abc_second =
             (Inr (Some report_abc_first), store_abc)"
    by (simp add: write_eval payload_ABC_first_def store_abc_second_def report_abc_first_def
        report_abc_second_def store_abc_def lower_ABC)
  have g: "get_by_symbol ''ABC'' store_abc = [report_abc_first]"
    by (simp add: get_by_symbol_def store_abc_def report_abc_first_def case_insensitive_def
        lower_ABC lower_abc)
  have f: "find_duplicate ''ABC'' (VStr ''annual'') (VInt 2023) VNone store_abc =
             Inr (Some report_abc_first)"
    by (simp add: find_duplicate_def store_abc_def report_abc_first_def case_insensitive_def
        lower_ABC lower_abc lower_annual)
  have n: "count_by_symbol ''ABC'' store_abc = 1"
    by (simp add: count_by_symbol_def store_abc_def report_abc_first_def case_insensitive_def
        lower_ABC lower_abc)
  have e: "rows (snd (delete_by_symbol ''ABC'' store_abc)) = []"
    by (simp add: delete_by_symbol_def store_abc_def report_abc_first_def case_insensitive_def
        lower_ABC lower_abc)
  from symbol_normalized_on_every_path [OF h1 h2 h3, where cols = cols0 and st = store_empty
      and r = report_abc_first and st' = store_abc]
    a
  have w: "symbol report_abc_first = VStr (lower ''ABC'') \<and>
           report_abc_first \<in> set (get_by_symbol ''abc'' store_abc)"
    by blast
  from symbol_normalized_on_every_path [OF h1 h2 h3, where st = store_abc]
  have r: "get_by_symbol ''abc'' store_abc = get_by_symbol ''ABC'' store_abc \<and>
           fst (delete_by_symbol ''ABC'' store_abc) = count_by_symbol ''ABC'' store_abc"
    by blast
  from h1 h2 h3 a b u upsert_ABC_first w r g f n e show ?thesis by simp
qed

end
